(* ===== verification/Weft_Prelude.thy ===== *)
theory Weft_Prelude
  imports Main "HOL-Library.Word" "HOL-Library.Char_ord" "HOL-Library.List_Lexorder"
    "HOL-Library.AList"
begin

text \<open>
  The shared vocabulary of the development: the Go types the agent uses at their width, the
  parts of the Go standard library its sources call (packages \<open>strings\<close>, \<open>strconv\<close>,
  \<open>unicode/utf8\<close> and \<open>path/filepath\<close>), and the generic lemmas on lists, options and
  association lists that the component theories share.

  A Go string is a sequence of bytes and so is a HOL \<^typ>\<open>string\<close>: one \<^typ>\<open>char\<close> is one byte.
  A returned \<open>error\<close> is an \<open>option\<close>: \<^const>\<open>None\<close> is \<open>nil\<close>.
  A Go map is a partial function; a loop that ranges over a map is given the order in which the
  runtime visits the keys as an explicit list, and \<open>range_order\<close> says which lists are possible,
  so a theorem about such a loop holds for every order.
\<close>

named_theorems go_defs "definitions of the Go library functions, for evaluation on closed terms"

section \<open>Types\<close>

type_synonym byte = "8 word"
type_synonym u16 = "16 word"
type_synonym u32 = "32 word"
type_synonym u64 = "64 word"
type_synonym 'e err = "'e option"

abbreviation nil_error :: "'e option" where
  "nil_error \<equiv> None"

abbreviation LF :: char where
  "LF \<equiv> CHR 0x0A"

abbreviation NUL :: char where
  "NUL \<equiv> CHR 0x00"

definition byte_of_char :: "char \<Rightarrow> byte" where
  "byte_of_char c = of_nat (of_char c)"

definition char_of_byte :: "byte \<Rightarrow> char" where
  "char_of_byte b = char_of (unat b)"

text \<open>The conversions \<^verbatim>\<open>[]byte(s)\<close> and \<^verbatim>\<open>string(b)\<close>.\<close>

definition bytes_of_string :: "string \<Rightarrow> byte list" where
  "bytes_of_string = map byte_of_char"

definition string_of_bytes :: "byte list \<Rightarrow> string" where
  "string_of_bytes = map char_of_byte"

text \<open>The possible orders of a \<^verbatim>\<open>range\<close> over a map.\<close>

definition range_order :: "('k \<rightharpoonup> 'v) \<Rightarrow> 'k list \<Rightarrow> bool" where
  "range_order m ks \<longleftrightarrow> distinct ks \<and> set ks = dom m"

section \<open>Package strings\<close>

definition HasPrefix :: "string \<Rightarrow> string \<Rightarrow> bool" where
  "HasPrefix s p \<longleftrightarrow> take (length p) s = p"

definition TrimPrefix :: "string \<Rightarrow> string \<Rightarrow> string" where
  "TrimPrefix s p = (if HasPrefix s p then drop (length p) s else s)"

text \<open>\<open>CutPrefix\<close> returns the rest and whether the prefix was there: here an option.\<close>

definition CutPrefix :: "string \<Rightarrow> string \<Rightarrow> string option" where
  "CutPrefix s p = (if HasPrefix s p then Some (drop (length p) s) else None)"

fun Contains :: "string \<Rightarrow> string \<Rightarrow> bool" where
  "Contains [] p = (p = [])"
| "Contains (c # s) p = (HasPrefix (c # s) p \<or> Contains s p)"

definition TrimRight :: "string \<Rightarrow> string \<Rightarrow> string" where
  "TrimRight s cutset = rev (dropWhile (\<lambda>c. c \<in> set cutset) (rev s))"

text \<open>\<open>Split\<close> by a one-byte separator.\<close>

fun Split :: "string \<Rightarrow> char \<Rightarrow> string list" where
  "Split [] c = [[]]"
| "Split (x # xs) c =
     (if x = c then [] # Split xs c
      else (case Split xs c of [] \<Rightarrow> [[x]] | y # ys \<Rightarrow> (x # y) # ys))"

fun Join :: "string list \<Rightarrow> string \<Rightarrow> string" where
  "Join [] sep = []"
| "Join [s] sep = s"
| "Join (s # t # ss) sep = s @ sep @ Join (t # ss) sep"

text \<open>\<open>IndexByte\<close> and \<open>LastIndexByte\<close>; \<^const>\<open>None\<close> is Go's \<open>-1\<close>.\<close>

fun IndexByte :: "string \<Rightarrow> char \<Rightarrow> nat option" where
  "IndexByte [] c = None"
| "IndexByte (x # xs) c = (if x = c then Some 0 else map_option Suc (IndexByte xs c))"

fun LastIndexByte :: "string \<Rightarrow> char \<Rightarrow> nat option" where
  "LastIndexByte [] c = None"
| "LastIndexByte (x # xs) c =
     (case LastIndexByte xs c of Some i \<Rightarrow> Some (Suc i)
      | None \<Rightarrow> (if x = c then Some 0 else None))"

section \<open>Package unicode/utf8, and what is built on it\<close>

abbreviation RuneError :: nat where
  "RuneError \<equiv> 0xFFFD"

definition cont_byte :: "nat \<Rightarrow> bool" where
  "cont_byte b \<longleftrightarrow> 0x80 \<le> b \<and> b \<le> 0xBF"

text \<open>The range of the second byte that \<open>utf8.DecodeRune\<close> accepts after a first byte.\<close>

definition second_ok :: "nat \<Rightarrow> nat \<Rightarrow> bool" where
  "second_ok b0 b1 \<longleftrightarrow>
     (if b0 = 0xE0 then 0xA0 \<le> b1 \<and> b1 \<le> 0xBF
      else if b0 = 0xED then 0x80 \<le> b1 \<and> b1 \<le> 0x9F
      else if b0 = 0xF0 then 0x90 \<le> b1 \<and> b1 \<le> 0xBF
      else if b0 = 0xF4 then 0x80 \<le> b1 \<and> b1 \<le> 0x8F
      else cont_byte b1)"

definition decode_rune2 :: "nat \<Rightarrow> nat \<Rightarrow> nat \<times> nat" where
  "decode_rune2 b0 b1 =
     (if second_ok b0 b1 then ((b0 - 0xC0) * 64 + (b1 - 0x80), 2) else (RuneError, 1))"

definition decode_rune3 :: "nat \<Rightarrow> nat \<Rightarrow> nat \<Rightarrow> nat \<times> nat" where
  "decode_rune3 b0 b1 b2 =
     (if second_ok b0 b1 \<and> cont_byte b2
      then ((b0 - 0xE0) * 4096 + (b1 - 0x80) * 64 + (b2 - 0x80), 3) else (RuneError, 1))"

definition decode_rune4 :: "nat \<Rightarrow> nat \<Rightarrow> nat \<Rightarrow> nat \<Rightarrow> nat \<times> nat" where
  "decode_rune4 b0 b1 b2 b3 =
     (if second_ok b0 b1 \<and> cont_byte b2 \<and> cont_byte b3
      then ((b0 - 0xF0) * 262144 + (b1 - 0x80) * 4096 + (b2 - 0x80) * 64 + (b3 - 0x80), 4)
      else (RuneError, 1))"

text \<open>\<open>utf8.DecodeRune\<close>: the rune and its width; an invalid byte is \<open>(RuneError, 1)\<close>.\<close>

definition DecodeRune :: "string \<Rightarrow> nat \<times> nat" where
  "DecodeRune s = (case map of_char s of
       [] \<Rightarrow> (RuneError, 0)
     | b0 # bs \<Rightarrow>
         if b0 < 0x80 then (b0, 1)
         else if b0 < 0xC2 \<or> 0xF4 < b0 then (RuneError, 1)
         else (case bs of
             [] \<Rightarrow> (RuneError, 1)
           | b1 # cs \<Rightarrow>
               if b0 < 0xE0 then decode_rune2 b0 b1
               else (case cs of
                   [] \<Rightarrow> (RuneError, 1)
                 | b2 # ds \<Rightarrow>
                     if b0 < 0xF0 then decode_rune3 b0 b1 b2
                     else (case ds of [] \<Rightarrow> (RuneError, 1) | b3 # _ \<Rightarrow> decode_rune4 b0 b1 b2 b3))))"

text \<open>\<open>utf8.AppendRune\<close>: surrogates and runes past the last one are encoded as \<open>RuneError\<close>.\<close>

definition EncodeRune :: "nat \<Rightarrow> string" where
  "EncodeRune r0 =
     (let r = (if (0xD800 \<le> r0 \<and> r0 \<le> 0xDFFF) \<or> 0x10FFFF < r0 then RuneError else r0) in
      map char_of
       (if r < 0x80 then [r]
        else if r < 0x800 then [0xC0 + r div 64, 0x80 + r mod 64]
        else if r < 0x10000 then [0xE0 + r div 4096, 0x80 + r div 64 mod 64, 0x80 + r mod 64]
        else [0xF0 + r div 262144, 0x80 + r div 4096 mod 64, 0x80 + r div 64 mod 64,
              0x80 + r mod 64]))"

lemmas rune_defs = DecodeRune_def decode_rune2_def decode_rune3_def decode_rune4_def

lemma DecodeRune_size: "s \<noteq> [] \<Longrightarrow> 0 < snd (DecodeRune s)"
  by (auto simp: rune_defs split: list.splits if_splits)

text \<open>A string cut into its runes, each with the bytes it was read from.\<close>

function runes :: "string \<Rightarrow> (nat \<times> string) list" where
  "runes s = (if s = [] then []
     else (fst (DecodeRune s), take (snd (DecodeRune s)) s) # runes (drop (snd (DecodeRune s)) s))"
  by pat_completeness auto
termination
  by (relation "measure length") (auto simp: DecodeRune_size)

declare runes.simps [simp del]

lemma runes_code [code]:
  "runes [] = []"
  "runes (c # s) = (fst (DecodeRune (c # s)), take (snd (DecodeRune (c # s))) (c # s)) # runes (drop (snd (DecodeRune (c # s))) (c # s))"
  by (simp_all add: runes.simps [of "[]"] runes.simps [of "c # s"])

definition IsSpace :: "nat \<Rightarrow> bool" where
  "IsSpace r \<longleftrightarrow> r \<in> {9, 10, 11, 12, 13, 32, 0x85, 0xA0, 0x1680, 0x2028, 0x2029, 0x202F, 0x205F, 0x3000}
     \<or> (0x2000 \<le> r \<and> r \<le> 0x200A)"

lemma IsSpace_code [code]:
  "IsSpace r = (let i = int r in
     i \<in> set [9, 10, 11, 12, 13, 32, 0x85, 0xA0, 0x1680, 0x2028, 0x2029, 0x202F, 0x205F, 0x3000] \<or>
     (0x2000 \<le> i \<and> i \<le> 0x200A))"
  unfolding IsSpace_def Let_def by auto

fun fields_aux :: "(nat \<times> string) list \<Rightarrow> string \<Rightarrow> string list" where
  "fields_aux [] cur = (if cur = [] then [] else [cur])"
| "fields_aux ((r, bs) # rs) cur =
     (if IsSpace r then (if cur = [] then fields_aux rs [] else cur # fields_aux rs [])
      else fields_aux rs (cur @ bs))"

definition Fields :: "string \<Rightarrow> string list" where
  "Fields s = fields_aux (runes s) []"

definition TrimSpace :: "string \<Rightarrow> string" where
  "TrimSpace s =
     concat (map snd (rev (dropWhile (IsSpace \<circ> fst) (rev (dropWhile (IsSpace \<circ> fst) (runes s))))))"

section \<open>Package strconv\<close>

datatype num_error = ErrSyntax | ErrRange

definition is_digit :: "char \<Rightarrow> bool" where
  "is_digit c \<longleftrightarrow> 48 \<le> (of_char c :: nat) \<and> (of_char c :: nat) \<le> 57"

definition digit_val :: "char \<Rightarrow> int" where
  "digit_val c = of_char c - 48"

text \<open>The loop of \<open>ParseUint\<close> in base 10, left to right: it stops at the first byte that is not
  a digit and at the first prefix that does not fit.\<close>

fun parse_uint_loop :: "int \<Rightarrow> int \<Rightarrow> string \<Rightarrow> int \<times> num_error err" where
  "parse_uint_loop maxVal n [] = (n, None)"
| "parse_uint_loop maxVal n (c # cs) =
     (if \<not> is_digit c then (0, Some ErrSyntax)
      else if maxVal < 10 * n + digit_val c then (maxVal, Some ErrRange)
      else parse_uint_loop maxVal (10 * n + digit_val c) cs)"

definition ParseUint :: "string \<Rightarrow> nat \<Rightarrow> int \<times> num_error err" where
  "ParseUint s bits =
     (if s = [] then (0, Some ErrSyntax) else parse_uint_loop (2 ^ bits - 1) 0 s)"

definition ParseInt :: "string \<Rightarrow> nat \<Rightarrow> int \<times> num_error err" where
  "ParseInt s bits =
     (let neg = (s \<noteq> [] \<and> hd s = CHR ''-'');
          s' = (if s \<noteq> [] \<and> (hd s = CHR ''+'' \<or> hd s = CHR ''-'') then tl s else s);
          cutoff = 2 ^ (bits - 1)
      in case ParseUint s' bits of
           (_, Some ErrSyntax) \<Rightarrow> (0, Some ErrSyntax)
         | (un, _) \<Rightarrow>
             if \<not> neg \<and> cutoff \<le> un then (cutoff - 1, Some ErrRange)
             else if neg \<and> cutoff < un then (- cutoff, Some ErrRange)
             else (if neg then - un else un, None))"

text \<open>\<open>strconv.Atoi\<close>; \<^const>\<open>None\<close> is any error.\<close>

definition Atoi :: "string \<Rightarrow> int option" where
  "Atoi s = (case ParseInt s 64 of (v, None) \<Rightarrow> Some v | (_, Some _) \<Rightarrow> None)"

fun show_nat :: "nat \<Rightarrow> string" where
  "show_nat n = (if n < 10 then [char_of (48 + n)] else show_nat (n div 10) @ [char_of (48 + n mod 10)])"

declare show_nat.simps [simp del]

definition Itoa :: "int \<Rightarrow> string" where
  "Itoa i = (if i < 0 then CHR ''-'' # show_nat (nat (- i)) else show_nat (nat i))"

section \<open>Package path/filepath\<close>

fun clean_loop :: "bool \<Rightarrow> string list \<Rightarrow> string list \<Rightarrow> string list" where
  "clean_loop rooted acc [] = rev acc"
| "clean_loop rooted acc (c # cs) =
     (if c = [] \<or> c = ''.'' then clean_loop rooted acc cs
      else if c = ''..'' then
        (case acc of
           [] \<Rightarrow> clean_loop rooted (if rooted then [] else [c]) cs
         | a # as \<Rightarrow> if a = ''..'' then clean_loop rooted (c # acc) cs else clean_loop rooted as cs)
      else clean_loop rooted (c # acc) cs)"

definition Clean :: "string \<Rightarrow> string" where
  "Clean s =
     (let rooted = HasPrefix s ''/''; body = Join (clean_loop rooted [] (Split s CHR ''/'')) ''/''
      in if rooted then ''/'' @ body else if body = [] then ''.'' else body)"

definition filepath_Join :: "string list \<Rightarrow> string" where
  "filepath_Join elems =
     (let es = dropWhile (\<lambda>e. e = []) elems in if es = [] then [] else Clean (Join es ''/''))"

definition filepath_Dir :: "string \<Rightarrow> string" where
  "filepath_Dir p = Clean (rev (dropWhile (\<lambda>c. c \<noteq> CHR ''/'') (rev p)))"

definition filepath_Ext :: "string \<Rightarrow> string" where
  "filepath_Ext p =
     (case dropWhile (\<lambda>c. c \<noteq> CHR ''/'' \<and> c \<noteq> CHR ''.'') (rev p) of
        [] \<Rightarrow> []
      | c # _ \<Rightarrow>
          if c = CHR ''.''
          then c # rev (takeWhile (\<lambda>c. c \<noteq> CHR ''/'' \<and> c \<noteq> CHR ''.'') (rev p)) else [])"

lemmas go_string_defs [go_defs] =
  HasPrefix_def TrimPrefix_def CutPrefix_def TrimRight_def Fields_def TrimSpace_def runes.simps
  rune_defs second_ok_def cont_byte_def IsSpace_def is_digit_def digit_val_def ParseUint_def ParseInt_def
  Atoi_def Itoa_def show_nat.simps Clean_def filepath_Join_def filepath_Dir_def filepath_Ext_def

section \<open>Shared lemmas\<close>

subsection \<open>Bytes\<close>

lemma char_of_byte_of_char [simp]: "char_of_byte (byte_of_char c) = c"
  by (simp add: char_of_byte_def byte_of_char_def unat_of_nat)

lemma byte_of_char_of_byte [simp]: "byte_of_char (char_of_byte b) = b"
proof -
  have "(of_char (char_of (unat b) :: char) :: nat) = unat b"
    using unsigned_less [of b, where ?'a = nat] by simp
  then show ?thesis by (simp add: char_of_byte_def byte_of_char_def)
qed

lemma string_bytes_inverse [simp]: "string_of_bytes (bytes_of_string s) = s"
  by (induction s) (simp_all add: string_of_bytes_def bytes_of_string_def)

lemma bytes_string_inverse [simp]: "bytes_of_string (string_of_bytes b) = b"
  by (induction b) (simp_all add: string_of_bytes_def bytes_of_string_def)

subsection \<open>Strings\<close>

lemma HasPrefix_iff: "HasPrefix s p \<longleftrightarrow> (\<exists>t. s = p @ t)"
  by (metis HasPrefix_def append_eq_conv_conj append_take_drop_id)

lemma HasPrefix_append [simp]: "HasPrefix (p @ t) p"
  by (simp add: HasPrefix_def)

lemma CutPrefix_Some: "CutPrefix s p = Some t \<longleftrightarrow> s = p @ t"
  by (auto simp: CutPrefix_def HasPrefix_def) (metis append_take_drop_id)

lemma Contains_iff: "Contains s p \<longleftrightarrow> (\<exists>a b. s = a @ p @ b)"
proof (induction s)
  case Nil
  then show ?case by auto
next
  case (Cons c s)
  have "(\<exists>a b. c # s = a @ p @ b) \<longleftrightarrow> (\<exists>t. c # s = p @ t) \<or> (\<exists>a b. s = a @ p @ b)"
    by (metis append_Cons append_Nil list.inject neq_Nil_conv)
  then show ?case by (simp add: Cons.IH HasPrefix_iff)
qed

lemma Split_nonempty [simp]: "Split s c \<noteq> []"
  by (cases s) (auto split: list.splits)

lemma Join_Split [simp]: "Join (Split s c) [c] = s"
proof (induction s)
  case (Cons x s)
  then show ?case
    by (cases "Split s c" rule: list.exhaust; cases "tl (Split s c)") auto
qed simp

lemma Split_no_sep: "\<forall>t \<in> set (Split s c). c \<notin> set t"
  by (induction s) (auto split: list.splits)

end
