(* ===== verification/Go_Json.thy ===== *)
theory Go_Json
  imports Weft_Prelude
begin

text \<open>
  Package \<open>encoding/json\<close> as far as the agent uses it.  \<open>json_parse\<close> is the scanner and the
  string unquoting of \<open>Unmarshal\<close>, \<open>json_print\<close> the compact output of \<open>Marshal\<close>, and the
  \<open>dec_\<close> combinators are the decoding of a JSON value into a Go variable: a decoder takes the
  value and what the variable holds, because \<open>Unmarshal\<close> leaves a variable as it is on
  \<open>null\<close>, merges objects into structs and maps, and reuses the elements of a slice.
  \<^const>\<open>None\<close> is an error; which of its errors \<open>Unmarshal\<close> returns is not modelled, since the
  agent only logs it.
\<close>

section \<open>Values and text\<close>

text \<open>A number is kept as its literal, as the decoder does.\<close>

datatype json =
    JNull
  | JBool bool
  | JNum string
  | JStr string
  | JArr "json list"
  | JObj "(string \<times> json) list"

definition is_ws :: "char \<Rightarrow> bool" where
  "is_ws c \<longleftrightarrow> c = CHR '' '' \<or> c = CHR 0x09 \<or> c = CHR 0x0A \<or> c = CHR 0x0D"

definition skip_ws :: "string \<Rightarrow> string" where
  "skip_ws = dropWhile is_ws"

definition hex_val :: "char \<Rightarrow> nat option" where
  "hex_val c = (let n = of_char c in
     if 48 \<le> n \<and> n \<le> 57 then Some (n - 48)
     else if 97 \<le> n \<and> n \<le> 102 then Some (n - 87)
     else if 65 \<le> n \<and> n \<le> 70 then Some (n - 55)
     else None)"

definition is_hex :: "char \<Rightarrow> bool" where
  "is_hex c \<longleftrightarrow> hex_val c \<noteq> None"

definition hex4 :: "char \<Rightarrow> char \<Rightarrow> char \<Rightarrow> char \<Rightarrow> nat" where
  "hex4 a b c d = ((the (hex_val a) * 16 + the (hex_val b)) * 16 + the (hex_val c)) * 16 + the (hex_val d)"

text \<open>The scanner over a string literal, after its opening quote: the raw text up to the closing
  quote, and what follows.\<close>

fun scan_string :: "string \<Rightarrow> (string \<times> string) option" where
  "scan_string [] = None"
| "scan_string (c # r) =
     (if c = CHR 0x22 then Some ([], r)
      else if c = CHR 0x5C then
        (case r of
           [] \<Rightarrow> None
         | e # r' \<Rightarrow>
             if e \<in> {CHR 0x22, CHR 0x5C, CHR ''/'', CHR ''b'', CHR ''f'', CHR ''n'', CHR ''r'', CHR ''t''}
             then map_option (\<lambda>(s, t). (c # e # s, t)) (scan_string r')
             else if e = CHR ''u'' then
               (case r' of
                  h1 # h2 # h3 # h4 # r'' \<Rightarrow>
                    if is_hex h1 \<and> is_hex h2 \<and> is_hex h3 \<and> is_hex h4
                    then map_option (\<lambda>(s, t). (c # e # h1 # h2 # h3 # h4 # s, t)) (scan_string r'')
                    else None
                | _ \<Rightarrow> None)
             else None)
      else if (of_char c :: nat) < 0x20 then None
      else map_option (\<lambda>(s, t). (c # s, t)) (scan_string r))"

definition is_surrogate :: "nat \<Rightarrow> bool" where
  "is_surrogate r \<longleftrightarrow> 0xD800 \<le> r \<and> r < 0xE000"

text \<open>\<open>utf16.DecodeRune\<close>.\<close>

definition decode_surrogates :: "nat \<Rightarrow> nat \<Rightarrow> nat" where
  "decode_surrogates r1 r2 =
     (if 0xD800 \<le> r1 \<and> r1 < 0xDC00 \<and> 0xDC00 \<le> r2 \<and> r2 < 0xE000
      then (r1 - 0xD800) * 1024 + (r2 - 0xDC00) + 0x10000 else RuneError)"

definition unescape :: "char \<Rightarrow> char" where
  "unescape e =
     (if e = CHR ''b'' then CHR 0x08 else if e = CHR ''f'' then CHR 0x0C
      else if e = CHR ''n'' then CHR 0x0A else if e = CHR ''r'' then CHR 0x0D
      else if e = CHR ''t'' then CHR 0x09 else e)"

text \<open>\<open>getu4\<close>: the code unit of a \<^verbatim>\<open>\uXXXX\<close> escape at the start of a text.\<close>

definition getu4 :: "string \<Rightarrow> nat option" where
  "getu4 s = (case s of
       b # u # h1 # h2 # h3 # h4 # _ \<Rightarrow>
         if b = CHR 0x5C \<and> u = CHR ''u'' \<and> is_hex h1 \<and> is_hex h2 \<and> is_hex h3 \<and> is_hex h4
         then Some (hex4 h1 h2 h3 h4) else None
     | _ \<Rightarrow> None)"

text \<open>What \<open>unquote\<close> produces from the head of a raw text, and how many bytes it consumes.\<close>

definition unquote_step :: "string \<Rightarrow> string \<times> nat" where
  "unquote_step s = (case s of
       [] \<Rightarrow> ([], 1)
     | c # r \<Rightarrow>
         if c = CHR 0x5C then
           (case getu4 s of
              Some rr \<Rightarrow>
                if is_surrogate rr then
                  (let dec = (case getu4 (drop 6 s) of Some rr1 \<Rightarrow> decode_surrogates rr rr1
                              | None \<Rightarrow> RuneError)
                   in if dec \<noteq> RuneError then (EncodeRune dec, 12) else (EncodeRune RuneError, 6))
                else (EncodeRune rr, 6)
            | None \<Rightarrow> (case r of [] \<Rightarrow> ([], 1) | e # _ \<Rightarrow> ([unescape e], 2)))
         else if (of_char c :: nat) < 0x80 then ([c], 1)
         else (EncodeRune (fst (DecodeRune s)), snd (DecodeRune s)))"

lemma unquote_step_size: "s \<noteq> [] \<Longrightarrow> 0 < snd (unquote_step s)"
  using DecodeRune_size [of s] by (auto simp: unquote_step_def Let_def split: list.splits option.splits)

function unquote :: "string \<Rightarrow> string" where
  "unquote s = (if s = [] then [] else fst (unquote_step s) @ unquote (drop (snd (unquote_step s)) s))"
  by pat_completeness auto
termination
  by (relation "measure length") (auto simp: unquote_step_size)

declare unquote.simps [simp del]

text \<open>Number literals: an optional sign, an integer part without leading zeros, a fraction, an
  exponent.\<close>

definition scan_digits :: "string \<Rightarrow> string \<times> string" where
  "scan_digits s = (takeWhile is_digit s, dropWhile is_digit s)"

definition scan_int :: "string \<Rightarrow> (string \<times> string) option" where
  "scan_int s = (case s of
       [] \<Rightarrow> None
     | c # r \<Rightarrow> if c = CHR ''0'' then Some ([c], r)
                else if is_digit c then Some (scan_digits s) else None)"

definition scan_frac :: "string \<Rightarrow> (string \<times> string) option" where
  "scan_frac s = (case s of
       c # r \<Rightarrow> if c = CHR ''.''
                then (case scan_digits r of (d, t) \<Rightarrow> if d = [] then None else Some (c # d, t))
                else Some ([], s)
     | [] \<Rightarrow> Some ([], s))"

definition scan_exp :: "string \<Rightarrow> (string \<times> string) option" where
  "scan_exp s = (case s of
       c # r \<Rightarrow>
         if c = CHR ''e'' \<or> c = CHR ''E'' then
           (let sg = (case r of x # _ \<Rightarrow> if x = CHR ''+'' \<or> x = CHR ''-'' then [x] else [] | [] \<Rightarrow> [])
            in case scan_digits (drop (length sg) r) of
                 (d, t) \<Rightarrow> if d = [] then None else Some (c # sg @ d, t))
         else Some ([], s)
     | [] \<Rightarrow> Some ([], s))"

definition scan_number :: "string \<Rightarrow> (string \<times> string) option" where
  "scan_number s =
     (let sg = (case s of x # _ \<Rightarrow> if x = CHR ''-'' then [x] else [] | [] \<Rightarrow> [])
      in case scan_int (drop (length sg) s) of
           None \<Rightarrow> None
         | Some (i, s1) \<Rightarrow>
             (case scan_frac s1 of
                None \<Rightarrow> None
              | Some (f, s2) \<Rightarrow>
                  (case scan_exp s2 of None \<Rightarrow> None | Some (e, s3) \<Rightarrow> Some (sg @ i @ f @ e, s3))))"

section \<open>Parsing\<close>

text \<open>The nesting limit of the scanner.\<close>

definition maxNestingDepth :: nat where
  "maxNestingDepth = 10000"

text \<open>One unit of fuel per call; the recursive calls of a text of length \<open>n\<close> never nest deeper than
  \<open>2 * n + 2\<close>, since between two calls a byte is consumed.\<close>

fun parse_value :: "nat \<Rightarrow> nat \<Rightarrow> string \<Rightarrow> (json \<times> string) option"
  and parse_elems :: "nat \<Rightarrow> nat \<Rightarrow> string \<Rightarrow> (json list \<times> string) option"
  and parse_members :: "nat \<Rightarrow> nat \<Rightarrow> string \<Rightarrow> ((string \<times> json) list \<times> string) option" where
  "parse_value 0 d s = None"
| "parse_value (Suc fuel) d s = (case skip_ws s of
       [] \<Rightarrow> None
     | c # r \<Rightarrow>
         if c = CHR 0x22 then map_option (\<lambda>(raw, t). (JStr (unquote raw), t)) (scan_string r)
         else if c = CHR ''['' then
           (if maxNestingDepth < Suc d then None
            else case skip_ws r of
              [] \<Rightarrow> None
            | x # r' \<Rightarrow>
                if x = CHR '']'' then Some (JArr [], r')
                else map_option (\<lambda>(js, t). (JArr js, t)) (parse_elems fuel (Suc d) r))
         else if c = CHR ''{'' then
           (if maxNestingDepth < Suc d then None
            else case skip_ws r of
              [] \<Rightarrow> None
            | x # r' \<Rightarrow>
                if x = CHR ''}'' then Some (JObj [], r')
                else map_option (\<lambda>(ms, t). (JObj ms, t)) (parse_members fuel (Suc d) r))
         else if HasPrefix (c # r) ''true'' then Some (JBool True, drop 4 (c # r))
         else if HasPrefix (c # r) ''false'' then Some (JBool False, drop 5 (c # r))
         else if HasPrefix (c # r) ''null'' then Some (JNull, drop 4 (c # r))
         else map_option (\<lambda>(n, t). (JNum n, t)) (scan_number (c # r)))"
| "parse_elems 0 d s = None"
| "parse_elems (Suc fuel) d s = (case parse_value fuel d s of
       None \<Rightarrow> None
     | Some (j, t) \<Rightarrow>
         (case skip_ws t of
            [] \<Rightarrow> None
          | c # r \<Rightarrow>
              if c = CHR '','' then map_option (\<lambda>(js, u). (j # js, u)) (parse_elems fuel d r)
              else if c = CHR '']'' then Some ([j], r)
              else None))"
| "parse_members 0 d s = None"
| "parse_members (Suc fuel) d s = (case skip_ws s of
       [] \<Rightarrow> None
     | q # r \<Rightarrow>
         if q \<noteq> CHR 0x22 then None
         else case scan_string r of
           None \<Rightarrow> None
         | Some (raw, t) \<Rightarrow>
             (case skip_ws t of
                [] \<Rightarrow> None
              | c # t' \<Rightarrow>
                  if c \<noteq> CHR '':'' then None
                  else case parse_value fuel d t' of
                    None \<Rightarrow> None
                  | Some (j, u) \<Rightarrow>
                      (case skip_ws u of
                         [] \<Rightarrow> None
                       | e # u' \<Rightarrow>
                           if e = CHR '','' then
                             map_option (\<lambda>(ms, v). ((unquote raw, j) # ms, v)) (parse_members fuel d u')
                           else if e = CHR ''}'' then Some ([(unquote raw, j)], u')
                           else None)))"

definition json_parse :: "string \<Rightarrow> json option" where
  "json_parse s = (case parse_value (2 * length s + 2) 0 s of
       Some (j, t) \<Rightarrow> if skip_ws t = [] then Some j else None
     | None \<Rightarrow> None)"

section \<open>Printing\<close>

definition hex_digit :: "nat \<Rightarrow> char" where
  "hex_digit n = (if n < 10 then char_of (48 + n) else char_of (87 + n))"

definition u_escape :: "nat \<Rightarrow> string" where
  "u_escape r = [CHR 0x5C, CHR ''u'', hex_digit (r div 4096 mod 16), hex_digit (r div 256 mod 16),
     hex_digit (r div 16 mod 16), hex_digit (r mod 16)]"

text \<open>\<open>appendString\<close> with HTML escaping, one rune at a time.\<close>

definition quote_rune :: "nat \<times> string \<Rightarrow> string" where
  "quote_rune p = (case p of (r, bs) \<Rightarrow>
     if r < 0x80 then
       (if r = 0x22 \<or> r = 0x5C then [CHR 0x5C, char_of r]
        else if r = 0x08 then [CHR 0x5C, CHR ''b''] else if r = 0x0C then [CHR 0x5C, CHR ''f'']
        else if r = 0x0A then [CHR 0x5C, CHR ''n''] else if r = 0x0D then [CHR 0x5C, CHR ''r'']
        else if r = 0x09 then [CHR 0x5C, CHR ''t'']
        else if r < 0x20 \<or> r = 0x3C \<or> r = 0x3E \<or> r = 0x26 then u_escape r
        else [char_of r])
     else if r = RuneError \<and> length bs = 1 then u_escape RuneError
     else if r = 0x2028 \<or> r = 0x2029 then u_escape r
     else bs)"

definition quote :: "string \<Rightarrow> string" where
  "quote s = [CHR 0x22] @ concat (map quote_rune (runes s)) @ [CHR 0x22]"

fun json_print :: "json \<Rightarrow> string" where
  "json_print JNull = ''null''"
| "json_print (JBool b) = (if b then ''true'' else ''false'')"
| "json_print (JNum n) = n"
| "json_print (JStr s) = quote s"
| "json_print (JArr js) = ''['' @ Join (map json_print js) '','' @ '']''"
| "json_print (JObj ms) = ''{'' @ Join (map (\<lambda>(k, v). quote k @ '':'' @ json_print v) ms) '','' @ ''}''"

section \<open>Decoding into Go variables\<close>

type_synonym 'a into = "json \<Rightarrow> 'a \<Rightarrow> 'a option"

fun dec_string :: "string into" where
  "dec_string (JStr s) old = Some s"
| "dec_string JNull old = Some old"
| "dec_string _ old = None"

fun dec_bool :: "bool into" where
  "dec_bool (JBool b) old = Some b"
| "dec_bool JNull old = Some old"
| "dec_bool _ old = None"

text \<open>\<open>int\<close> on the 64-bit targets the agent is built for.\<close>

fun dec_int :: "int into" where
  "dec_int (JNum n) old = (case ParseInt n 64 of (v, None) \<Rightarrow> Some v | (_, Some _) \<Rightarrow> None)"
| "dec_int JNull old = Some old"
| "dec_int _ old = None"

fun dec_uint16 :: "u16 into" where
  "dec_uint16 (JNum n) old =
     (case ParseUint n 64 of (v, None) \<Rightarrow> if v < 2 ^ 16 then Some (of_int v) else None | (_, Some _) \<Rightarrow> None)"
| "dec_uint16 JNull old = Some old"
| "dec_uint16 _ old = None"

fun dec_elems :: "'a into \<Rightarrow> 'a \<Rightarrow> json list \<Rightarrow> 'a list \<Rightarrow> 'a list option" where
  "dec_elems dec zero [] old = Some []"
| "dec_elems dec zero (j # js) old =
     (case dec j (case old of [] \<Rightarrow> zero | x # _ \<Rightarrow> x) of
        None \<Rightarrow> None
      | Some v \<Rightarrow> map_option ((#) v) (dec_elems dec zero js (tl old)))"

text \<open>Slices; \<open>null\<close> makes the slice nil.\<close>

fun dec_list :: "'a into \<Rightarrow> 'a \<Rightarrow> 'a list into" where
  "dec_list dec zero (JArr js) old = dec_elems dec zero js old"
| "dec_list dec zero JNull old = Some []"
| "dec_list dec zero _ old = None"

fun dec_entries :: "'a into \<Rightarrow> 'a \<Rightarrow> (string \<times> json) list \<Rightarrow> (string \<times> 'a) list \<Rightarrow> (string \<times> 'a) list option" where
  "dec_entries dec zero [] m = Some m"
| "dec_entries dec zero ((k, j) # ms) m =
     (case dec j zero of None \<Rightarrow> None | Some v \<Rightarrow> dec_entries dec zero ms (AList.update k v m))"

text \<open>Maps with string keys, as association lists without duplicates; every value is decoded into
  a fresh variable.\<close>

fun dec_map :: "'a into \<Rightarrow> 'a \<Rightarrow> (string \<times> 'a) list into" where
  "dec_map dec zero (JObj ms) old = dec_entries dec zero ms old"
| "dec_map dec zero JNull old = Some []"
| "dec_map dec zero _ old = None"

fun dec_ptr :: "'a into \<Rightarrow> 'a \<Rightarrow> 'a option into" where
  "dec_ptr dec zero JNull old = Some None"
| "dec_ptr dec zero j old = map_option Some (dec j (case old of None \<Rightarrow> zero | Some x \<Rightarrow> x))"

text \<open>Key matching: an exact match first, then one that ignores case.  Folding maps the ASCII
  letters to upper case and knows the two other runes that fold to an ASCII letter, the long s
  (\<open>U+017F\<close>) and the Kelvin sign (\<open>U+212A\<close>).\<close>

definition fold_rune :: "nat \<times> string \<Rightarrow> string" where
  "fold_rune p = (case p of (r, bs) \<Rightarrow>
     if 97 \<le> r \<and> r \<le> 122 then [char_of (r - 32)]
     else if r = 0x17F then ''S'' else if r = 0x212A then ''K'' else bs)"

definition fold_name :: "string \<Rightarrow> string" where
  "fold_name s = concat (map fold_rune (runes s))"

definition match_field :: "string list \<Rightarrow> string \<Rightarrow> string option" where
  "match_field names key =
     (if key \<in> set names then Some key else find (\<lambda>n. fold_name n = fold_name key) names)"

fun dec_members :: "string list \<Rightarrow> (string \<Rightarrow> 'r into) \<Rightarrow> (string \<times> json) list \<Rightarrow> 'r \<Rightarrow> 'r option" where
  "dec_members names set_field [] r = Some r"
| "dec_members names set_field ((k, j) # ms) r =
     (case match_field names k of
        None \<Rightarrow> dec_members names set_field ms r
      | Some n \<Rightarrow>
          (case set_field n j r of None \<Rightarrow> None | Some r' \<Rightarrow> dec_members names set_field ms r'))"

fun dec_struct :: "string list \<Rightarrow> (string \<Rightarrow> 'r into) \<Rightarrow> 'r into" where
  "dec_struct names set_field (JObj ms) r = dec_members names set_field ms r"
| "dec_struct names set_field JNull r = Some r"
| "dec_struct names set_field _ r = None"

definition Unmarshal :: "'a into \<Rightarrow> 'a \<Rightarrow> string \<Rightarrow> 'a option" where
  "Unmarshal dec zero data = (case json_parse data of None \<Rightarrow> None | Some j \<Rightarrow> dec j zero)"

section \<open>Evaluation\<close>

text \<open>The comparisons with large naturals, as comparisons of integers, so that decoding evaluates.\<close>

lemma maxNestingDepth_code [code_unfold]: "maxNestingDepth < Suc d \<longleftrightarrow> 10000 < int (Suc d)"
  by (simp add: maxNestingDepth_def)

lemma of_char_int: "(of_char c :: int) = int (of_char c)"
  by (cases c) (simp add: of_char_def)

lemma of_char_less_code [code_unfold]: "(of_char c :: nat) < numeral n \<longleftrightarrow> (of_char c :: int) < numeral n"
  unfolding of_char_int of_nat_numeral [symmetric, where 'a = int] of_nat_less_iff ..

end
