(* ===== verification/Json_Fuel.thy ===== *)
theory Json_Fuel
  imports Go_Json
begin

text \<open>
  The fuel of the JSON parser is enough: what it returns for a text of length \<open>n\<close> is the same for every fuel
  from \<open>2 * n + 1\<close> on, so a \<^const>\<open>None\<close> of \<open>json_parse\<close> is a syntax error and never a lack of fuel.
\<close>

section \<open>What is left of the text\<close>

lemma skip_ws_Cons_length: "skip_ws s = c # r \<Longrightarrow> length r < length s"
  using length_dropWhile_le [of is_ws s] by (simp add: skip_ws_def)

lemma scan_string_length: "scan_string s = Some (a, t) \<Longrightarrow> length t < length s"
  by (induction s arbitrary: a t rule: scan_string.induct) (fastforce split: if_splits list.splits)+

lemma member_value_length:
  "skip_ws s = q # r \<Longrightarrow> scan_string r = Some (raw, t) \<Longrightarrow> skip_ws t = c # t' \<Longrightarrow> length t' < length s"
  by (auto dest!: skip_ws_Cons_length scan_string_length)

lemma scan_digits_length: "scan_digits s = (d, t) \<Longrightarrow> length t \<le> length s"
  using length_dropWhile_le [of is_digit s] by (auto simp: scan_digits_def)

lemma scan_int_length: "scan_int s = Some (d, t) \<Longrightarrow> length t \<le> length s"
  by (auto simp: scan_int_def split: list.splits if_splits dest: scan_digits_length)

lemma scan_frac_length: "scan_frac s = Some (d, t) \<Longrightarrow> length t \<le> length s"
  by (auto simp: scan_frac_def split: list.splits if_splits prod.splits dest!: scan_digits_length)

lemma scan_exp_length: "scan_exp s = Some (d, t) \<Longrightarrow> length t \<le> length s"
  by (auto simp: scan_exp_def Let_def split: list.splits if_splits prod.splits dest!: scan_digits_length)

lemma scan_number_length: "scan_number s = Some (d, t) \<Longrightarrow> length t \<le> length s"
  by (auto simp: scan_number_def Let_def split: option.splits prod.splits if_splits list.splits
      dest!: scan_int_length scan_frac_length scan_exp_length)

definition shrinks :: "('a \<times> string) option \<Rightarrow> string \<Rightarrow> bool" where
  "shrinks r s \<longleftrightarrow> (case r of None \<Rightarrow> True | Some (_, t) \<Rightarrow> length t \<le> length s)"

lemma shrinks_simps [simp]:
  "shrinks None s" "shrinks (Some (x, t)) s \<longleftrightarrow> length t \<le> length s"
  "shrinks (map_option (\<lambda>(x, t). (h x, t)) r) s \<longleftrightarrow> shrinks r s"
  by (auto simp: shrinks_def split: option.splits)

lemma shrinks_mono: "shrinks r s \<Longrightarrow> length s \<le> length s' \<Longrightarrow> shrinks r s'"
  by (auto simp: shrinks_def split: option.splits)

lemma shrinks_scan: "shrinks (scan_string s) s" "shrinks (scan_number s) s"
  by (auto simp: shrinks_def split: option.splits dest!: scan_string_length scan_number_length)

lemma parse_shrinks:
  "shrinks (parse_value f d s) s \<and> shrinks (parse_elems f d s) s \<and> shrinks (parse_members f d s) s"
proof (induction f arbitrary: d s)
  case 0
  show ?case by simp
next
  case (Suc f)
  have "shrinks (parse_value (Suc f) d s) s"
  proof (cases "skip_ws s")
    case (Cons c r)
    have l: "length (c # r) \<le> length s" using skip_ws_Cons_length [OF Cons] by simp
    have e: "shrinks (parse_elems f (Suc d) r) s" "shrinks (parse_members f (Suc d) r) s"
      "shrinks (scan_string r) s" "shrinks (scan_number (c # r)) s"
      using shrinks_mono [of "parse_elems f (Suc d) r" r s] shrinks_mono [of "parse_members f (Suc d) r" r s]
        shrinks_mono [of "scan_string r" r s] shrinks_mono [of "scan_number (c # r)" "c # r" s]
        Suc [of "Suc d" r] shrinks_scan [of r] shrinks_scan [of "c # r"] l by simp_all
    have w: "length r' \<le> length s" if "skip_ws r = x # r'" for x r' using skip_ws_Cons_length [OF that] l by simp
    show ?thesis using Cons e l w by (cases "skip_ws r") auto
  qed simp
  moreover have "shrinks (parse_elems (Suc f) d s) s"
  proof (cases "parse_value f d s")
    case (Some p)
    obtain j t where p: "p = (j, t)" by (cases p)
    have l: "length t \<le> length s" using Suc [of d s] Some p by simp
    have "shrinks (parse_elems f d r) s" "length r \<le> length s" if "skip_ws t = c # r" for c r
      using shrinks_mono [of "parse_elems f d r" r s] Suc [of d r] skip_ws_Cons_length [OF that] l by auto
    then show ?thesis using Some p by (simp split: list.split)
  qed simp
  moreover have "shrinks (parse_members (Suc f) d s) s"
  proof -
    have "shrinks (parse_members f d u') s \<and> length u' \<le> length s"
      if "skip_ws s = q # r" "scan_string r = Some (raw, t)" "skip_ws t = c # t'" "parse_value f d t' = Some (j, u)"
        "skip_ws u = e # u'" for q r raw t c t' j u e u'
      using shrinks_mono [of "parse_members f d u'" u' s] Suc [of d u'] Suc [of d t'] that(4)
        member_value_length [OF that(1-3)] skip_ws_Cons_length [OF that(5)] by auto
    then show ?thesis by (simp split: list.split option.split)
  qed
  ultimately show ?case by blast
qed

section \<open>Fuel\<close>

lemma parse_fuel:
  "(2 * length s < f \<longrightarrow> f \<le> g \<longrightarrow> parse_value g d s = parse_value f d s) \<and>
   (2 * length s + 1 < f \<longrightarrow> f \<le> g \<longrightarrow> parse_elems g d s = parse_elems f d s) \<and>
   (2 * length s + 1 < f \<longrightarrow> f \<le> g \<longrightarrow> parse_members g d s = parse_members f d s)"
proof (induction f arbitrary: g d s)
  case 0
  show ?case by simp
next
  case (Suc f)
  show ?case
  proof (cases g)
    case (Suc g')
    have v: "parse_value g' d t = parse_value f d t" if "2 * length t < f" "f \<le> g'" for d t using Suc.IH that by blast
    have e: "parse_elems g' d t = parse_elems f d t" if "2 * length t + 1 < f" "f \<le> g'" for d t using Suc.IH that by blast
    have m: "parse_members g' d t = parse_members f d t" if "2 * length t + 1 < f" "f \<le> g'" for d t using Suc.IH that by blast
    have "parse_value g d s = parse_value (Suc f) d s" if "2 * length s < Suc f" "f \<le> g'"
    proof (cases "skip_ws s")
      case (Cons c r)
      have "2 * length r + 1 < f" using skip_ws_Cons_length [OF Cons] that by simp
      then show ?thesis using Cons e [of r] m [of r] that by (simp add: \<open>g = Suc g'\<close> split: list.split)
    qed (simp add: \<open>g = Suc g'\<close>)
    moreover have "parse_elems g d s = parse_elems (Suc f) d s" if "2 * length s + 1 < Suc f" "f \<le> g'"
    proof (cases "parse_value f d s")
      case None
      then show ?thesis using v [of s d] that by (simp add: \<open>g = Suc g'\<close>)
    next
      case (Some p)
      obtain j t where p: "p = (j, t)" by (cases p)
      have "length t \<le> length s" using parse_shrinks [of f d s] Some p by simp
      then have "parse_elems g' d r = parse_elems f d r" if "skip_ws t = c # r" for c r
        using e [of r d] skip_ws_Cons_length [OF that] \<open>2 * length s + 1 < Suc f\<close> \<open>f \<le> g'\<close> by simp
      then show ?thesis using Some p v [of s d] that by (simp add: \<open>g = Suc g'\<close> split: list.split)
    qed
    moreover have "parse_members g d s = parse_members (Suc f) d s" if b: "2 * length s + 1 < Suc f" "f \<le> g'"
    proof -
      have v': "parse_value g' d t' = parse_value f d t'" if "length t' < length s" for t' using v [of t' d] b that by simp
      have m': "parse_members g' d u' = parse_members f d u'"
        if "skip_ws s = q # r" "scan_string r = Some (raw, t)" "skip_ws t = c # t'" "parse_value f d t' = Some (j, u)"
          "skip_ws u = e # u'" for q r raw t c t' j u e u'
        using m [of u' d] parse_shrinks [of f d t'] skip_ws_Cons_length [OF that(5)] member_value_length [OF that(1-3)] that(4) b
        by simp
      show ?thesis using member_value_length v' by (auto simp add: \<open>g = Suc g'\<close> m' split: list.split option.split)
    qed
    ultimately show ?thesis by (simp add: Suc)
  qed simp
qed

lemma json_parse_fuel:
  assumes "2 * length s < f"
  shows "json_parse s = (case parse_value f 0 s of
     Some (j, t) \<Rightarrow> if skip_ws t = [] then Some j else None | None \<Rightarrow> None)"
proof -
  have k: "parse_value k 0 s = parse_value (2 * length s + 1) 0 s" if "2 * length s < k" for k
    using parse_fuel [of s "2 * length s + 1" k 0] that by linarith
  show ?thesis unfolding json_parse_def k [OF assms] by (subst k) simp_all
qed

end
