(* ===== verification/Metrics.thy ===== *)
theory Metrics
  imports Weft_Prelude
begin

text \<open>
  The Prometheus recorder of \<^verbatim>\<open>internal/metrics/metrics.go\<close>: one definition per method of
  \<open>Recorder\<close>.  The Prometheus client is a third-party library, so an instrument is modelled by
  the calls made on it: a counter is the number of its \<open>Inc\<close> calls or the list of the arguments
  of its \<open>Add\<close> calls, a histogram the list of its observations, a gauge its last \<open>Set\<close>.
  The kernel's drop counter, which restarts from 0 whenever the nftables table is rebuilt, is
  modelled apart (\<open>interval\<close>) to state what the published counter says about it.
\<close>

section \<open>Data\<close>

record Recorder =
  buildInfo :: "(string \<times> string \<times> string) \<rightharpoonup> int"
  applyTotal :: "string \<times> string \<Rightarrow> nat"
  applyDuration :: "string \<Rightarrow> int list"
  natsConnected :: int
  firewallStatusPublishes :: "string \<Rightarrow> nat"
  firewallDropsPackets :: "nat list"
  firewallDropsBytes :: "nat list"
  firewallDropsLastPkt :: u64
  firewallDropsLastByt :: u64

text \<open>\<^verbatim>\<open>float64(n)\<close> of an unsigned integer: 53 significant bits, ties to even.\<close>

fun bit_length :: "nat \<Rightarrow> nat" where
  "bit_length n = (if n = 0 then 0 else Suc (bit_length (n div 2)))"

declare bit_length.simps [simp del]

definition float64_of_nat :: "nat \<Rightarrow> nat" where
  "float64_of_nat n =
     (if n < 2 ^ 53 then n
      else let e = bit_length n - 53; q = n div 2 ^ e; r = n mod 2 ^ e; half = 2 ^ (e - 1)
           in (if half < r \<or> (r = half \<and> odd q) then q + 1 else q) * 2 ^ e)"

section \<open>Operations\<close>

text \<open>Every method may be called on a nil receiver, which is \<^const>\<open>None\<close> here.\<close>

definition metrics_New :: "string \<Rightarrow> string \<Rightarrow> string \<Rightarrow> Recorder" where
  "metrics_New version commit date =
     \<lparr>buildInfo = [(version, commit, date) \<mapsto> 1], applyTotal = (\<lambda>_. 0), applyDuration = (\<lambda>_. []),
      natsConnected = 0, firewallStatusPublishes = (\<lambda>_. 0), firewallDropsPackets = [],
      firewallDropsBytes = [], firewallDropsLastPkt = 0, firewallDropsLastByt = 0\<rparr>"

definition result_label :: "'e err \<Rightarrow> string" where
  "result_label e = (if e \<noteq> None then ''error'' else ''ok'')"

definition RecordApply :: "Recorder option \<Rightarrow> string \<Rightarrow> 'e err \<Rightarrow> int \<Rightarrow> Recorder option" where
  "RecordApply r concern e dur = (case r of
       None \<Rightarrow> None
     | Some rec \<Rightarrow>
         let result = result_label e in
         Some (rec\<lparr>applyTotal := (applyTotal rec)((concern, result) := applyTotal rec (concern, result) + 1),
                   applyDuration := (applyDuration rec)(concern := applyDuration rec concern @ [dur])\<rparr>))"

definition RecordFirewallStatusPublish :: "Recorder option \<Rightarrow> 'e err \<Rightarrow> Recorder option" where
  "RecordFirewallStatusPublish r e = (case r of
       None \<Rightarrow> None
     | Some rec \<Rightarrow>
         let result = result_label e in
         Some (rec\<lparr>firewallStatusPublishes :=
                     (firewallStatusPublishes rec)(result := firewallStatusPublishes rec result + 1)\<rparr>))"

text \<open>One of the two symmetric halves of \<open>RecordFirewallDrops\<close>: the arguments of the \<open>Add\<close>
  calls it makes for a kernel value \<open>cur\<close> when the last one seen was \<open>prev\<close>.\<close>

definition drop_adds :: "u64 \<Rightarrow> u64 \<Rightarrow> nat list" where
  "drop_adds prev cur =
     (let last' = (if cur < prev then 0 else prev); delta = cur - last'
      in if 0 < delta then [float64_of_nat (unat delta)] else [])"

definition RecordFirewallDrops :: "Recorder option \<Rightarrow> u64 \<Rightarrow> u64 \<Rightarrow> Recorder option" where
  "RecordFirewallDrops r packets bytes = (case r of
       None \<Rightarrow> None
     | Some rec \<Rightarrow>
         Some (rec\<lparr>firewallDropsPackets :=
                     firewallDropsPackets rec @ drop_adds (firewallDropsLastPkt rec) packets,
                   firewallDropsLastPkt := packets,
                   firewallDropsBytes :=
                     firewallDropsBytes rec @ drop_adds (firewallDropsLastByt rec) bytes,
                   firewallDropsLastByt := bytes\<rparr>))"

definition SetNATSConnected :: "Recorder option \<Rightarrow> bool \<Rightarrow> Recorder option" where
  "SetNATSConnected r connected = (case r of
       None \<Rightarrow> None
     | Some rec \<Rightarrow> Some (rec\<lparr>natsConnected := (if connected then 1 else 0)\<rparr>))"

text \<open>A run of the emitter feeds the recorder one snapshot after the other.\<close>

fun record_drops_all :: "Recorder option \<Rightarrow> (u64 \<times> u64) list \<Rightarrow> Recorder option" where
  "record_drops_all r [] = r"
| "record_drops_all r ((p, b) # obs) = record_drops_all (RecordFirewallDrops r p b) obs"

section \<open>The kernel counter\<close>

text \<open>The environment of \<open>RecordFirewallDrops\<close>.  Between two polls the kernel drops packets, and the table may
  be rebuilt any number of times, at any moment; a rebuild restarts the counter from 0.  An interval
  is the number of drops before its first rebuild and the numbers of drops after each rebuild.\<close>

datatype interval = Interval nat "nat list"

fun kernel_drops :: "interval \<Rightarrow> nat" where
  "kernel_drops (Interval k ks) = k + sum_list ks"

fun kernel_next :: "nat \<Rightarrow> interval \<Rightarrow> nat" where
  "kernel_next c (Interval k ks) = (if ks = [] then c + k else last ks)"

text \<open>What the counter shows at the polls.\<close>

fun kernel_values :: "nat \<Rightarrow> interval list \<Rightarrow> nat list" where
  "kernel_values c [] = []"
| "kernel_values c (t # ts) = kernel_next c t # kernel_values (kernel_next c t) ts"

text \<open>The drops of an interval that no poll can show: with a rebuild, those before the last rebuild, and,
  when the counter has reached the value \<open>c\<close> of the poll before again, so that the rebuild goes
  unnoticed, \<open>c\<close> of those after it.\<close>

fun kernel_lost :: "nat \<Rightarrow> interval \<Rightarrow> nat" where
  "kernel_lost c (Interval k ks) =
     (if ks = [] then 0 else k + sum_list (butlast ks) + (if last ks < c then 0 else c))"

fun lost :: "nat \<Rightarrow> interval list \<Rightarrow> nat" where
  "lost c [] = 0"
| "lost c (t # ts) = kernel_lost c t + lost (kernel_next c t) ts"

fun published :: "u64 \<Rightarrow> u64 list \<Rightarrow> nat" where
  "published prev [] = 0"
| "published prev (v # vs) = sum_list (drop_adds prev v) + published v vs"

section \<open>Lemmas\<close>

subsection \<open>Rounding\<close>

lemma float64_of_nat_small [simp]: "n < 2 ^ 53 \<Longrightarrow> float64_of_nat n = n"
  by (simp add: float64_of_nat_def)

lemma bit_length_bounds: "0 < n \<Longrightarrow> 2 ^ (bit_length n - 1) \<le> n \<and> n < 2 ^ bit_length n \<and> 0 < bit_length n"
proof (induction n rule: bit_length.induct)
  case (1 n)
  show ?case
  proof (cases "n = 1")
    case True
    then show ?thesis by (simp add: bit_length.simps)
  next
    case False
    with 1 have "0 < n div 2" "n \<noteq> 0" by auto
    with 1 have IH: "2 ^ (bit_length (n div 2) - 1) \<le> n div 2" "n div 2 < 2 ^ bit_length (n div 2)" "0 < bit_length (n div 2)"
      by auto
    have b: "bit_length n = Suc (bit_length (n div 2))" using \<open>n \<noteq> 0\<close> by (simp add: bit_length.simps [of n])
    have "2 ^ bit_length (n div 2) = 2 * (2 :: nat) ^ (bit_length (n div 2) - 1)" using IH(3) by (cases "bit_length (n div 2)") auto
    moreover have "2 * (n div 2) \<le> n" "n < 2 * (n div 2) + 2" by auto
    ultimately have "2 ^ bit_length (n div 2) \<le> n" "n < 2 * 2 ^ bit_length (n div 2)" using IH by linarith+
    with b show ?thesis by simp
  qed
qed

text \<open>Half a unit in the last of 53 places.\<close>

lemma float64_error: "\<bar>int (float64_of_nat n) - int n\<bar> * 2 ^ 53 \<le> int n"
proof (cases "n < 2 ^ 53")
  case False
  define b where "b = bit_length n"
  define e where "e = b - 53"
  define h :: nat where "h = 2 ^ (e - 1)"
  have bounds: "2 ^ (b - 1) \<le> n" "n < 2 ^ b" using bit_length_bounds [of n] False by (auto simp: b_def)
  have "\<not> b \<le> 53"
  proof
    assume "b \<le> 53"
    then have "(2 :: nat) ^ b \<le> 2 ^ 53" by (rule power_increasing) simp
    with bounds False show False by linarith
  qed
  then have e: "0 < e" "b - 1 = (e - 1) + 53" by (auto simp: e_def)
  have two: "2 ^ e = 2 * h" using e(1) by (cases e) (auto simp: h_def)
  have hn: "h * 2 ^ 53 \<le> n" using bounds(1) unfolding e(2) power_add h_def .
  have n: "n = n div 2 ^ e * 2 ^ e + n mod 2 ^ e" by (rule div_mult_mod_eq [symmetric])
  have r: "n mod 2 ^ e < 2 * h" unfolding two [symmetric] by simp
  have err: "\<bar>int (float64_of_nat n) - int n\<bar> \<le> int h"
  proof -
    have f: "float64_of_nat n = (if h < n mod 2 ^ e \<or> (n mod 2 ^ e = h \<and> odd (n div 2 ^ e)) then n div 2 ^ e + 1 else n div 2 ^ e) * 2 ^ e"
      using False by (simp add: float64_of_nat_def Let_def e_def b_def h_def)
    show ?thesis
    proof (cases "h < n mod 2 ^ e \<or> (n mod 2 ^ e = h \<and> odd (n div 2 ^ e))")
      case True
      then have "float64_of_nat n = n div 2 ^ e * 2 ^ e + 2 * h" using f two by simp
      with True n r show ?thesis by linarith
    next
      case F: False
      then have "float64_of_nat n = n div 2 ^ e * 2 ^ e" using f by simp
      with F n r show ?thesis by linarith
    qed
  qed
  have "\<bar>int (float64_of_nat n) - int n\<bar> * 2 ^ 53 \<le> int h * 2 ^ 53" by (rule mult_right_mono [OF err]) simp
  also have "\<dots> \<le> int n" using hn by (metis of_nat_le_iff of_nat_mult of_nat_numeral of_nat_power)
  finally show ?thesis .
qed simp

subsection \<open>The published total\<close>

definition step_seen :: "nat \<Rightarrow> nat \<Rightarrow> nat" where
  "step_seen c n = (if n < c then n else n - c)"

fun seen :: "nat \<Rightarrow> interval list \<Rightarrow> nat" where
  "seen c [] = 0"
| "seen c (t # ts) = step_seen c (kernel_next c t) + seen (kernel_next c t) ts"

lemma unat_u64 [simp]: "n < 2 ^ 64 \<Longrightarrow> unat (of_nat n :: u64) = n"
  by (simp add: unat_of_nat)

lemma drop_adds_seen:
  assumes "c < 2 ^ 64" and "n < 2 ^ 64"
  shows "sum_list (drop_adds (of_nat c) (of_nat n)) = float64_of_nat (step_seen c n)"
proof -
  let ?c = "of_nat c :: u64" and ?n = "of_nat n :: u64"
  have less: "?n < ?c \<longleftrightarrow> n < c" using assms by (simp add: word_less_nat_alt)
  have "unat (?n - ?c) = n - c" if "c \<le> n"
    using assms that by (simp add: unat_sub word_le_nat_alt)
  with less assms show ?thesis
    by (auto simp: drop_adds_def step_seen_def Let_def word_less_nat_alt unat_eq_0)
qed

lemma step_lost_seen: "kernel_lost c t + step_seen c (kernel_next c t) = kernel_drops t"
proof (cases t)
  case (Interval k ks)
  show ?thesis
  proof (cases "ks = []")
    case False
    then have "sum_list ks = sum_list (butlast ks) + last ks"
      by (metis append_butlast_last_id sum_list.Cons sum_list.Nil sum_list.append add_0_right)
    with False Interval show ?thesis by (simp add: step_seen_def)
  qed (simp add: Interval step_seen_def)
qed

lemma lost_seen: "lost c ts + seen c ts = sum_list (map kernel_drops ts)"
proof (induction ts arbitrary: c)
  case (Cons t ts)
  show ?case using Cons.IH [of "kernel_next c t"] step_lost_seen [of c t] by simp
qed simp

lemma step_seen_le: "step_seen c n \<le> n"
  by (simp add: step_seen_def)

lemma published_seen:
  assumes "c < 2 ^ 64" and "\<forall>v \<in> set (kernel_values c ts). v < 2 ^ 64"
  shows "\<bar>int (published (of_nat c) (map of_nat (kernel_values c ts))) - int (seen c ts)\<bar> * 2 ^ 53 \<le> int (seen c ts) \<and>
    ((\<forall>v \<in> set (kernel_values c ts). v < 2 ^ 53) \<longrightarrow> published (of_nat c) (map of_nat (kernel_values c ts)) = seen c ts)"
  using assms
proof (induction ts arbitrary: c)
  case (Cons t ts)
  let ?n = "kernel_next c t"
  let ?d = "step_seen c ?n" and ?P = "published (of_nat ?n) (map of_nat (kernel_values ?n ts))" and ?S = "seen ?n ts"
  have n: "?n < 2 ^ 64" using Cons.prems by simp
  have add: "sum_list (drop_adds (of_nat c) (of_nat ?n)) = float64_of_nat ?d" by (rule drop_adds_seen [OF Cons.prems(1) n])
  have IH: "\<bar>int ?P - int ?S\<bar> * 2 ^ 53 \<le> int ?S" "(\<forall>v \<in> set (kernel_values ?n ts). v < 2 ^ 53) \<longrightarrow> ?P = ?S"
    using Cons.IH [OF n] Cons.prems by auto
  have exact: "float64_of_nat ?d = ?d" if "?n < 2 ^ 53" using that step_seen_le [of c ?n] by simp
  have "\<bar>int (float64_of_nat ?d + ?P) - int (?d + ?S)\<bar> * 2 ^ 53 \<le>
      \<bar>int (float64_of_nat ?d) - int ?d\<bar> * 2 ^ 53 + \<bar>int ?P - int ?S\<bar> * 2 ^ 53"
    unfolding distrib_right [symmetric] by (rule mult_right_mono) simp_all
  also have "\<dots> \<le> int (?d + ?S)" using float64_error [of ?d] IH(1) by simp
  finally show ?case using add exact IH(2) by auto
qed simp

lemma record_drops_all_sums:
  assumes "record_drops_all (Some rec) obs = Some rec'"
  shows "sum_list (firewallDropsPackets rec') =
      sum_list (firewallDropsPackets rec) + published (firewallDropsLastPkt rec) (map fst obs)"
    "sum_list (firewallDropsBytes rec') =
      sum_list (firewallDropsBytes rec) + published (firewallDropsLastByt rec) (map snd obs)"
  using assms
proof (induction obs arbitrary: rec)
  case (Cons x obs)
  {
    case 1
    with Cons.IH show ?case by (cases x) (simp add: RecordFirewallDrops_def)
  next
    case 2
    with Cons.IH show ?case by (cases x) (simp add: RecordFirewallDrops_def)
  }
qed simp_all

lemma record_drops_all_Some: "\<exists>rec'. record_drops_all (Some rec) obs = Some rec'"
  by (induction "Some rec" obs arbitrary: rec rule: record_drops_all.induct)
    (auto simp: RecordFirewallDrops_def)

lemma kernel_values_length [simp]: "length (kernel_values c ts) = length ts"
  by (induction ts arbitrary: c) simp_all

text \<open>The published total against the kernel: \<open>lost\<close> is exactly what is missing, up to the rounding of the
  increments to \<open>float64\<close>, of which there is none below two to the 53.\<close>

definition accounts :: "nat \<Rightarrow> interval list \<Rightarrow> bool" where
  "accounts tot ts \<longleftrightarrow> (let dropped = sum_list (map kernel_drops ts) in
     lost 0 ts \<le> dropped \<and> \<bar>int tot - int (dropped - lost 0 ts)\<bar> * 2 ^ 53 \<le> int (dropped - lost 0 ts) \<and>
     ((\<forall>v \<in> set (kernel_values 0 ts). v < 2 ^ 53) \<longrightarrow> tot + lost 0 ts = dropped))"

lemma published_accounts:
  assumes "\<forall>v \<in> set (kernel_values 0 ts). v < 2 ^ 64"
  shows "accounts (published 0 (map of_nat (kernel_values 0 ts))) ts"
proof -
  have "sum_list (map kernel_drops ts) = lost 0 ts + seen 0 ts" by (simp add: lost_seen)
  with published_seen [of 0 ts] assms show ?thesis by (auto simp: accounts_def Let_def)
qed

section \<open>Properties\<close>



end
