(* ===== verification/Go_Netip.thy ===== *)
theory Go_Netip
  imports Weft_Prelude
begin

text \<open>
  Package \<open>net/netip\<close> as far as the agent uses it: whether \<open>ParsePrefix\<close> accepts a string.  The
  address itself is never used by the code under verification, so the parsers are predicates, with
  the case order of the library.
\<close>

section \<open>Addresses\<close>

definition octet_ok :: "string \<Rightarrow> bool" where
  "octet_ok f \<longleftrightarrow> f \<noteq> [] \<and> list_all is_digit f \<and> (f = ''0'' \<or> hd f \<noteq> CHR ''0'') \<and> length f \<le> 3 \<and>
     foldl (\<lambda>v c. 10 * v + digit_val c) 0 f \<le> 255"

text \<open>\<open>parseIPv4Fields\<close>.\<close>

definition ipv4_ok :: "string \<Rightarrow> bool" where
  "ipv4_ok s \<longleftrightarrow> length (Split s CHR ''.'') = 4 \<and> list_all octet_ok (Split s CHR ''.'')"

definition hex_char :: "char \<Rightarrow> bool" where
  "hex_char c \<longleftrightarrow> is_digit c \<or> (97 \<le> (of_char c :: nat) \<and> (of_char c :: nat) \<le> 102)
     \<or> (65 \<le> (of_char c :: nat) \<and> (of_char c :: nat) \<le> 70)"

text \<open>The loop of \<open>parseIPv6\<close>, with \<open>k\<close> the number of 16-bit fields still free (its \<open>i\<close> is
  \<open>16 - 2 * k\<close>), \<open>ell\<close> whether an ellipsis was seen, and the text that is left.  It returns the
  number of free fields, the ellipsis flag and the unread text when the loop ends.\<close>

fun ipv6_loop :: "nat \<Rightarrow> bool \<Rightarrow> string \<Rightarrow> (nat \<times> bool \<times> string) option" where
  "ipv6_loop 0 ell s = Some (0, ell, s)"
| "ipv6_loop (Suc k) ell s =
     (let h = takeWhile hex_char s; t = dropWhile hex_char s in
      if h = [] \<or> 4 < length h then None
      else if t \<noteq> [] \<and> hd t = CHR ''.'' then
        (if \<not> ell \<and> Suc k \<noteq> 2 then None
         else if k = 0 then None
         else if ipv4_ok s then Some (k - 1, ell, []) else None)
      else if t = [] then Some (k, ell, [])
      else if hd t \<noteq> CHR '':'' then None
      else if tl t = [] then None
      else if hd (tl t) = CHR '':'' then
        (if ell then None
         else if tl (tl t) = [] then Some (k, True, [])
         else ipv6_loop k True (tl (tl t)))
      else ipv6_loop k ell (tl t))"

definition ipv6_ok :: "string \<Rightarrow> bool" where
  "ipv6_ok s =
     (let lead = HasPrefix s ''::''; s' = (if lead then drop 2 s else s) in
      if lead \<and> s' = [] then True
      else case ipv6_loop 8 lead s' of
        None \<Rightarrow> False
      | Some (k, ell, rest) \<Rightarrow> rest = [] \<and> (if 0 < k then ell else \<not> ell))"

text \<open>\<open>ParsePrefix\<close>: the address up to the last slash, without a zone, and a mask length without
  sign or leading zeros that fits the address family.\<close>

definition bits_ok :: "string \<Rightarrow> int \<Rightarrow> bool" where
  "bits_ok b maxBits \<longleftrightarrow>
     \<not> (1 < length b \<and> (of_char (hd b) < (49 :: nat) \<or> (57 :: nat) < of_char (hd b))) \<and>
     (case Atoi b of None \<Rightarrow> False | Some n \<Rightarrow> 0 \<le> n \<and> n \<le> maxBits)"

definition ParsePrefix_ok :: "string \<Rightarrow> bool" where
  "ParsePrefix_ok s = (case LastIndexByte s CHR ''/'' of
       None \<Rightarrow> False
     | Some i \<Rightarrow>
         let a = take i s; b = drop (Suc i) s in
         (case find (\<lambda>c. c = CHR ''.'' \<or> c = CHR '':'' \<or> c = CHR ''%'') a of
            None \<Rightarrow> False
          | Some c \<Rightarrow>
              if c = CHR ''.'' then ipv4_ok a \<and> bits_ok b 32
              else if c = CHR '':'' then CHR ''%'' \<notin> set a \<and> ipv6_ok a \<and> bits_ok b 128
              else False))"

lemmas netip_defs [go_defs] =
  octet_ok_def ipv4_ok_def hex_char_def ipv6_ok_def bits_ok_def ParsePrefix_ok_def

end
