(* ===== verification/Pod.thy ===== *)
theory Pod
  imports Go_Json Go_Netip
begin

text \<open>
  The wire types of package \<open>pod\<close> (of \<^verbatim>\<open>weft-microvm-init\<close>, vendored with the agent): the
  desired states the host publishes, their JSON decoding from the struct tags, and their
  \<open>Validate\<close> methods, which every subscriber runs before it applies a message.  A map field is an
  association list.  Validation errors keep the case and the index of the source's message.
\<close>

section \<open>Data\<close>

record WGPeer =
  wp_PublicKey :: string
  wp_Endpoint :: string
  wp_AllowedIPs :: "string list"
  wp_PersistentKeepalive :: u16

record WireGuard =
  wg_Interface :: string
  wg_PrivateKey :: string
  wg_ListenPort :: u16
  wg_Address :: string
  wg_Peers :: "WGPeer list"

record FirewallRule =
  fr_Direction :: string
  fr_Protocol :: string
  fr_PortMin :: u16
  fr_PortMax :: u16
  fr_RemoteCIDR :: string

record Firewall =
  fw_Rules :: "FirewallRule list"

record FirewallStatus =
  fs_Overall :: string
  fs_TableInstalled :: bool
  fs_RulesInstalled :: int
  fs_LastError :: string
  fs_PublishedAtUnix :: int
  fs_DropsPackets :: u64
  fs_DropsBytes :: u64

record CubeFSMount =
  cf_Volume :: string
  cf_Masters :: "string list"
  cf_Owner :: string
  cf_AccessKey :: string
  cf_SecretKey :: string
  cf_SubDir :: string

record ShareMount =
  sm_ID :: string
  sm_Action :: string
  sm_Backend :: string
  sm_MountPoint :: string
  sm_Readonly :: bool
  sm_CubeFS :: "CubeFSMount option"

record ContainerMount =
  cm_HostPath :: string
  cm_MountPath :: string
  cm_Readonly :: bool

record WorkloadContainer =
  wc_Name :: string
  wc_Image :: string
  wc_Command :: "string list"
  wc_Args :: "string list"
  wc_Env :: "(string \<times> string) list"
  wc_Mounts :: "ContainerMount list"
  wc_WorkingDir :: string
  wc_Net :: string
  wc_Restart :: string
  wc_Annotations :: "(string \<times> string) list"

record ContainerSet =
  cs_Version :: int
  cs_Containers :: "WorkloadContainer list"

datatype pod_error =
    PrivateKeyRequired | AddressRequired | PeerPublicKeyRequired nat | PeerAllowedIPRequired nat
  | BadDirection nat string | BadProtocol nat string | PortNeedsTcpUdp nat string
  | PortRange nat u16 u16 | BadCIDR nat string
  | IdRequired | UnmountPointRequired string | MountPointRequired string | CubeFSRequired string
  | VolumeRequired string | MastersRequired string | OwnerRequired string | BadBackend string string
  | BadVersion int | NameRequired nat | DuplicateName nat string | ImageRequired nat string
  | BadNet nat string | BadRestart nat string | MountPathsRequired nat nat

definition ContainerSetVersion :: int where
  "ContainerSetVersion = 1"

definition MountActionUnmount :: string where
  "MountActionUnmount = ''unmount''"

definition BackendCubeFS :: string where
  "BackendCubeFS = ''cubefs''"

section \<open>Zero values and decoding\<close>

definition WGPeer_zero :: WGPeer where
  "WGPeer_zero = \<lparr>wp_PublicKey = [], wp_Endpoint = [], wp_AllowedIPs = [], wp_PersistentKeepalive = 0\<rparr>"

definition WireGuard_zero :: WireGuard where
  "WireGuard_zero = \<lparr>wg_Interface = [], wg_PrivateKey = [], wg_ListenPort = 0, wg_Address = [], wg_Peers = []\<rparr>"

definition FirewallRule_zero :: FirewallRule where
  "FirewallRule_zero = \<lparr>fr_Direction = [], fr_Protocol = [], fr_PortMin = 0, fr_PortMax = 0, fr_RemoteCIDR = []\<rparr>"

definition Firewall_zero :: Firewall where
  "Firewall_zero = \<lparr>fw_Rules = []\<rparr>"

definition CubeFSMount_zero :: CubeFSMount where
  "CubeFSMount_zero = \<lparr>cf_Volume = [], cf_Masters = [], cf_Owner = [], cf_AccessKey = [], cf_SecretKey = [],
     cf_SubDir = []\<rparr>"

definition ShareMount_zero :: ShareMount where
  "ShareMount_zero = \<lparr>sm_ID = [], sm_Action = [], sm_Backend = [], sm_MountPoint = [], sm_Readonly = False,
     sm_CubeFS = None\<rparr>"

definition ContainerMount_zero :: ContainerMount where
  "ContainerMount_zero = \<lparr>cm_HostPath = [], cm_MountPath = [], cm_Readonly = False\<rparr>"

definition WorkloadContainer_zero :: WorkloadContainer where
  "WorkloadContainer_zero = \<lparr>wc_Name = [], wc_Image = [], wc_Command = [], wc_Args = [], wc_Env = [],
     wc_Mounts = [], wc_WorkingDir = [], wc_Net = [], wc_Restart = [], wc_Annotations = []\<rparr>"

definition ContainerSet_zero :: ContainerSet where
  "ContainerSet_zero = \<lparr>cs_Version = 0, cs_Containers = []\<rparr>"

text \<open>One decoder per struct: the JSON names of its fields, and the assignment of a field.\<close>

definition dec_WGPeer :: "WGPeer into" where
  "dec_WGPeer = dec_struct [''public_key'', ''endpoint'', ''allowed_ips'', ''persistent_keepalive'']
     (\<lambda>n j r. if n = ''public_key'' then map_option (\<lambda>v. r\<lparr>wp_PublicKey := v\<rparr>) (dec_string j (wp_PublicKey r))
       else if n = ''endpoint'' then map_option (\<lambda>v. r\<lparr>wp_Endpoint := v\<rparr>) (dec_string j (wp_Endpoint r))
       else if n = ''allowed_ips'' then
         map_option (\<lambda>v. r\<lparr>wp_AllowedIPs := v\<rparr>) (dec_list dec_string [] j (wp_AllowedIPs r))
       else map_option (\<lambda>v. r\<lparr>wp_PersistentKeepalive := v\<rparr>) (dec_uint16 j (wp_PersistentKeepalive r)))"

definition dec_WireGuard :: "WireGuard into" where
  "dec_WireGuard = dec_struct [''interface'', ''private_key'', ''listen_port'', ''address'', ''peers'']
     (\<lambda>n j r. if n = ''interface'' then map_option (\<lambda>v. r\<lparr>wg_Interface := v\<rparr>) (dec_string j (wg_Interface r))
       else if n = ''private_key'' then map_option (\<lambda>v. r\<lparr>wg_PrivateKey := v\<rparr>) (dec_string j (wg_PrivateKey r))
       else if n = ''listen_port'' then map_option (\<lambda>v. r\<lparr>wg_ListenPort := v\<rparr>) (dec_uint16 j (wg_ListenPort r))
       else if n = ''address'' then map_option (\<lambda>v. r\<lparr>wg_Address := v\<rparr>) (dec_string j (wg_Address r))
       else map_option (\<lambda>v. r\<lparr>wg_Peers := v\<rparr>) (dec_list dec_WGPeer WGPeer_zero j (wg_Peers r)))"

definition dec_FirewallRule :: "FirewallRule into" where
  "dec_FirewallRule = dec_struct [''direction'', ''protocol'', ''port_min'', ''port_max'', ''remote_cidr'']
     (\<lambda>n j r. if n = ''direction'' then map_option (\<lambda>v. r\<lparr>fr_Direction := v\<rparr>) (dec_string j (fr_Direction r))
       else if n = ''protocol'' then map_option (\<lambda>v. r\<lparr>fr_Protocol := v\<rparr>) (dec_string j (fr_Protocol r))
       else if n = ''port_min'' then map_option (\<lambda>v. r\<lparr>fr_PortMin := v\<rparr>) (dec_uint16 j (fr_PortMin r))
       else if n = ''port_max'' then map_option (\<lambda>v. r\<lparr>fr_PortMax := v\<rparr>) (dec_uint16 j (fr_PortMax r))
       else map_option (\<lambda>v. r\<lparr>fr_RemoteCIDR := v\<rparr>) (dec_string j (fr_RemoteCIDR r)))"

definition dec_Firewall :: "Firewall into" where
  "dec_Firewall = dec_struct [''rules'']
     (\<lambda>n j r. map_option (\<lambda>v. r\<lparr>fw_Rules := v\<rparr>) (dec_list dec_FirewallRule FirewallRule_zero j (fw_Rules r)))"

definition dec_CubeFSMount :: "CubeFSMount into" where
  "dec_CubeFSMount = dec_struct [''volume'', ''masters'', ''owner'', ''access_key'', ''secret_key'', ''subdir'']
     (\<lambda>n j r. if n = ''volume'' then map_option (\<lambda>v. r\<lparr>cf_Volume := v\<rparr>) (dec_string j (cf_Volume r))
       else if n = ''masters'' then map_option (\<lambda>v. r\<lparr>cf_Masters := v\<rparr>) (dec_list dec_string [] j (cf_Masters r))
       else if n = ''owner'' then map_option (\<lambda>v. r\<lparr>cf_Owner := v\<rparr>) (dec_string j (cf_Owner r))
       else if n = ''access_key'' then map_option (\<lambda>v. r\<lparr>cf_AccessKey := v\<rparr>) (dec_string j (cf_AccessKey r))
       else if n = ''secret_key'' then map_option (\<lambda>v. r\<lparr>cf_SecretKey := v\<rparr>) (dec_string j (cf_SecretKey r))
       else map_option (\<lambda>v. r\<lparr>cf_SubDir := v\<rparr>) (dec_string j (cf_SubDir r)))"

definition dec_ShareMount :: "ShareMount into" where
  "dec_ShareMount = dec_struct [''id'', ''action'', ''backend'', ''mount_point'', ''readonly'', ''cubefs'']
     (\<lambda>n j r. if n = ''id'' then map_option (\<lambda>v. r\<lparr>sm_ID := v\<rparr>) (dec_string j (sm_ID r))
       else if n = ''action'' then map_option (\<lambda>v. r\<lparr>sm_Action := v\<rparr>) (dec_string j (sm_Action r))
       else if n = ''backend'' then map_option (\<lambda>v. r\<lparr>sm_Backend := v\<rparr>) (dec_string j (sm_Backend r))
       else if n = ''mount_point'' then map_option (\<lambda>v. r\<lparr>sm_MountPoint := v\<rparr>) (dec_string j (sm_MountPoint r))
       else if n = ''readonly'' then map_option (\<lambda>v. r\<lparr>sm_Readonly := v\<rparr>) (dec_bool j (sm_Readonly r))
       else map_option (\<lambda>v. r\<lparr>sm_CubeFS := v\<rparr>) (dec_ptr dec_CubeFSMount CubeFSMount_zero j (sm_CubeFS r)))"

definition dec_ContainerMount :: "ContainerMount into" where
  "dec_ContainerMount = dec_struct [''host_path'', ''mount_path'', ''readonly'']
     (\<lambda>n j r. if n = ''host_path'' then map_option (\<lambda>v. r\<lparr>cm_HostPath := v\<rparr>) (dec_string j (cm_HostPath r))
       else if n = ''mount_path'' then map_option (\<lambda>v. r\<lparr>cm_MountPath := v\<rparr>) (dec_string j (cm_MountPath r))
       else map_option (\<lambda>v. r\<lparr>cm_Readonly := v\<rparr>) (dec_bool j (cm_Readonly r)))"

definition dec_WorkloadContainer :: "WorkloadContainer into" where
  "dec_WorkloadContainer = dec_struct
     [''name'', ''image'', ''command'', ''args'', ''env'', ''mounts'', ''working_dir'', ''net'', ''restart'',
      ''annotations'']
     (\<lambda>n j r. if n = ''name'' then map_option (\<lambda>v. r\<lparr>wc_Name := v\<rparr>) (dec_string j (wc_Name r))
       else if n = ''image'' then map_option (\<lambda>v. r\<lparr>wc_Image := v\<rparr>) (dec_string j (wc_Image r))
       else if n = ''command'' then map_option (\<lambda>v. r\<lparr>wc_Command := v\<rparr>) (dec_list dec_string [] j (wc_Command r))
       else if n = ''args'' then map_option (\<lambda>v. r\<lparr>wc_Args := v\<rparr>) (dec_list dec_string [] j (wc_Args r))
       else if n = ''env'' then map_option (\<lambda>v. r\<lparr>wc_Env := v\<rparr>) (dec_map dec_string [] j (wc_Env r))
       else if n = ''mounts'' then
         map_option (\<lambda>v. r\<lparr>wc_Mounts := v\<rparr>) (dec_list dec_ContainerMount ContainerMount_zero j (wc_Mounts r))
       else if n = ''working_dir'' then map_option (\<lambda>v. r\<lparr>wc_WorkingDir := v\<rparr>) (dec_string j (wc_WorkingDir r))
       else if n = ''net'' then map_option (\<lambda>v. r\<lparr>wc_Net := v\<rparr>) (dec_string j (wc_Net r))
       else if n = ''restart'' then map_option (\<lambda>v. r\<lparr>wc_Restart := v\<rparr>) (dec_string j (wc_Restart r))
       else map_option (\<lambda>v. r\<lparr>wc_Annotations := v\<rparr>) (dec_map dec_string [] j (wc_Annotations r)))"

definition dec_ContainerSet :: "ContainerSet into" where
  "dec_ContainerSet = dec_struct [''version'', ''containers'']
     (\<lambda>n j r. if n = ''version'' then map_option (\<lambda>v. r\<lparr>cs_Version := v\<rparr>) (dec_int j (cs_Version r))
       else map_option (\<lambda>v. r\<lparr>cs_Containers := v\<rparr>)
              (dec_list dec_WorkloadContainer WorkloadContainer_zero j (cs_Containers r)))"

section \<open>Validation\<close>

fun validate_peers :: "nat \<Rightarrow> WGPeer list \<Rightarrow> pod_error err" where
  "validate_peers i [] = None"
| "validate_peers i (p # ps) =
     (if wp_PublicKey p = [] then Some (PeerPublicKeyRequired i)
      else if wp_AllowedIPs p = [] then Some (PeerAllowedIPRequired i)
      else validate_peers (Suc i) ps)"

definition WireGuard_Validate :: "WireGuard \<Rightarrow> pod_error err" where
  "WireGuard_Validate w =
     (if wg_PrivateKey w = [] then Some PrivateKeyRequired
      else if wg_Address w = [] then Some AddressRequired
      else validate_peers 0 (wg_Peers w))"

definition FirewallRule_Validate :: "nat \<Rightarrow> FirewallRule \<Rightarrow> pod_error err" where
  "FirewallRule_Validate i r =
     (if fr_Direction r \<noteq> ''ingress'' \<and> fr_Direction r \<noteq> ''egress'' then Some (BadDirection i (fr_Direction r))
      else if fr_Protocol r \<notin> {[], ''tcp'', ''udp'', ''icmp''} then Some (BadProtocol i (fr_Protocol r))
      else if (fr_PortMin r \<noteq> 0 \<or> fr_PortMax r \<noteq> 0) \<and> fr_Protocol r \<noteq> ''tcp'' \<and> fr_Protocol r \<noteq> ''udp''
        then Some (PortNeedsTcpUdp i (fr_Protocol r))
      else if (fr_PortMin r \<noteq> 0 \<or> fr_PortMax r \<noteq> 0) \<and> fr_PortMax r < fr_PortMin r
        then Some (PortRange i (fr_PortMin r) (fr_PortMax r))
      else if fr_RemoteCIDR r \<noteq> [] \<and> \<not> ParsePrefix_ok (fr_RemoteCIDR r) then Some (BadCIDR i (fr_RemoteCIDR r))
      else None)"

fun validate_rules :: "nat \<Rightarrow> FirewallRule list \<Rightarrow> pod_error err" where
  "validate_rules i [] = None"
| "validate_rules i (r # rs) =
     (case FirewallRule_Validate i r of Some e \<Rightarrow> Some e | None \<Rightarrow> validate_rules (Suc i) rs)"

definition Firewall_Validate :: "Firewall \<Rightarrow> pod_error err" where
  "Firewall_Validate f = validate_rules 0 (fw_Rules f)"

definition share_backend :: "ShareMount \<Rightarrow> string" where
  "share_backend m = (if sm_Backend m = [] then BackendCubeFS else sm_Backend m)"

definition ShareMount_Validate :: "ShareMount \<Rightarrow> pod_error err" where
  "ShareMount_Validate m =
     (if sm_ID m = [] then Some IdRequired
      else if sm_Action m = MountActionUnmount then
        (if sm_MountPoint m = [] then Some (UnmountPointRequired (sm_ID m)) else None)
      else if sm_MountPoint m = [] then Some (MountPointRequired (sm_ID m))
      else if share_backend m = BackendCubeFS then
        (case sm_CubeFS m of
           None \<Rightarrow> Some (CubeFSRequired (sm_ID m))
         | Some c \<Rightarrow>
             if cf_Volume c = [] then Some (VolumeRequired (sm_ID m))
             else if cf_Masters c = [] then Some (MastersRequired (sm_ID m))
             else if cf_Owner c = [] then Some (OwnerRequired (sm_ID m))
             else None)
      else Some (BadBackend (sm_ID m) (sm_Backend m)))"

fun validate_mounts :: "nat \<Rightarrow> nat \<Rightarrow> ContainerMount list \<Rightarrow> pod_error err" where
  "validate_mounts i j [] = None"
| "validate_mounts i j (m # ms) =
     (if cm_HostPath m = [] \<or> cm_MountPath m = [] then Some (MountPathsRequired i j)
      else validate_mounts i (Suc j) ms)"

fun validate_containers :: "nat \<Rightarrow> string list \<Rightarrow> WorkloadContainer list \<Rightarrow> pod_error err" where
  "validate_containers i seen [] = None"
| "validate_containers i seen (c # cs) =
     (if wc_Name c = [] then Some (NameRequired i)
      else if wc_Name c \<in> set seen then Some (DuplicateName i (wc_Name c))
      else if wc_Image c = [] then Some (ImageRequired i (wc_Name c))
      else if wc_Net c \<notin> {[], ''host'', ''none'', ''shared''} then Some (BadNet i (wc_Net c))
      else if wc_Restart c \<notin> {[], ''always'', ''on-failure'', ''never''} then Some (BadRestart i (wc_Restart c))
      else case validate_mounts i 0 (wc_Mounts c) of
        Some e \<Rightarrow> Some e
      | None \<Rightarrow> validate_containers (Suc i) (wc_Name c # seen) cs)"

text \<open>\<open>Validate\<close> has a pointer receiver and fills in a missing version.\<close>

definition ContainerSet_Validate :: "ContainerSet \<Rightarrow> pod_error err \<times> ContainerSet" where
  "ContainerSet_Validate s =
     (let s' = (if cs_Version s = 0 then s\<lparr>cs_Version := ContainerSetVersion\<rparr> else s) in
      if ContainerSetVersion < cs_Version s' then (Some (BadVersion (cs_Version s')), s')
      else (validate_containers 0 [] (cs_Containers s'), s'))"

section \<open>Encoding\<close>

text \<open>\<^verbatim>\<open>json.Marshal\<close> of the types the agent publishes: fields in declaration order, \<open>omitempty\<close>
  fields only when not empty, map keys sorted, a nil slice as \<open>null\<close>.\<close>

definition enc_strings :: "string list \<Rightarrow> json" where
  "enc_strings xs = JArr (map JStr xs)"

definition enc_map :: "(string \<times> string) list \<Rightarrow> json" where
  "enc_map m = JObj (map (\<lambda>k. (k, JStr (the (map_of m k)))) (sort (map fst m)))"

definition omitempty :: "bool \<Rightarrow> string \<Rightarrow> json \<Rightarrow> (string \<times> json) list" where
  "omitempty is_empty name j = (if is_empty then [] else [(name, j)])"

definition enc_ContainerMount :: "ContainerMount \<Rightarrow> json" where
  "enc_ContainerMount m = JObj
     ([(''host_path'', JStr (cm_HostPath m)), (''mount_path'', JStr (cm_MountPath m))]
      @ omitempty (\<not> cm_Readonly m) ''readonly'' (JBool (cm_Readonly m)))"

definition enc_WorkloadContainer :: "WorkloadContainer \<Rightarrow> json" where
  "enc_WorkloadContainer c = JObj
     ([(''name'', JStr (wc_Name c)), (''image'', JStr (wc_Image c))]
      @ omitempty (wc_Command c = []) ''command'' (enc_strings (wc_Command c))
      @ omitempty (wc_Args c = []) ''args'' (enc_strings (wc_Args c))
      @ omitempty (wc_Env c = []) ''env'' (enc_map (wc_Env c))
      @ omitempty (wc_Mounts c = []) ''mounts'' (JArr (map enc_ContainerMount (wc_Mounts c)))
      @ omitempty (wc_WorkingDir c = []) ''working_dir'' (JStr (wc_WorkingDir c))
      @ omitempty (wc_Net c = []) ''net'' (JStr (wc_Net c))
      @ omitempty (wc_Restart c = []) ''restart'' (JStr (wc_Restart c))
      @ omitempty (wc_Annotations c = []) ''annotations'' (enc_map (wc_Annotations c)))"

definition enc_ContainerSet :: "ContainerSet \<Rightarrow> json" where
  "enc_ContainerSet s = JObj
     [(''version'', JNum (Itoa (cs_Version s))),
      (''containers'', if cs_Containers s = [] then JNull else JArr (map enc_WorkloadContainer (cs_Containers s)))]"

section \<open>Lemmas\<close>

lemma validate_mounts_None:
  "validate_mounts i j ms = None \<longleftrightarrow> (\<forall>m \<in> set ms. cm_HostPath m \<noteq> [] \<and> cm_MountPath m \<noteq> [])"
  by (induction ms arbitrary: j) auto

text \<open>What a valid container is, apart from the other containers of its set.\<close>

definition container_ok :: "WorkloadContainer \<Rightarrow> bool" where
  "container_ok c \<longleftrightarrow> wc_Name c \<noteq> [] \<and> wc_Image c \<noteq> [] \<and> wc_Net c \<in> {[], ''host'', ''none'', ''shared''} \<and>
     wc_Restart c \<in> {[], ''always'', ''on-failure'', ''never''} \<and>
     (\<forall>m \<in> set (wc_Mounts c). cm_HostPath m \<noteq> [] \<and> cm_MountPath m \<noteq> [])"

lemma validate_containers_None:
  "validate_containers i seen cs = None \<longleftrightarrow>
     (\<forall>c \<in> set cs. container_ok c) \<and> distinct (map wc_Name cs) \<and> set (map wc_Name cs) \<inter> set seen = {}"
proof (induction cs arbitrary: i seen)
  case (Cons c cs)
  have "validate_containers i seen (c # cs) = None \<longleftrightarrow>
      container_ok c \<and> wc_Name c \<notin> set seen \<and> validate_containers (Suc i) (wc_Name c # seen) cs = None"
    by (auto simp: container_ok_def validate_mounts_None [of i 0, symmetric] split: option.splits)
  then show ?case by (auto simp: Cons.IH)
qed simp

lemma ContainerSet_Validate_None:
  "fst (ContainerSet_Validate s) = None \<longleftrightarrow>
     cs_Version s \<le> 1 \<and> (\<forall>c \<in> set (cs_Containers s). container_ok c) \<and> distinct (map wc_Name (cs_Containers s))"
  by (auto simp: ContainerSet_Validate_def Let_def ContainerSetVersion_def validate_containers_None)

lemma ContainerSet_Validate_containers [simp]:
  "cs_Containers (snd (ContainerSet_Validate s)) = cs_Containers s"
  by (simp add: ContainerSet_Validate_def Let_def)

definition rule_ok :: "FirewallRule \<Rightarrow> bool" where
  "rule_ok r \<longleftrightarrow> fr_Direction r \<in> {''ingress'', ''egress''} \<and> fr_Protocol r \<in> {[], ''tcp'', ''udp'', ''icmp''} \<and>
     (fr_PortMin r \<noteq> 0 \<or> fr_PortMax r \<noteq> 0 \<longrightarrow> fr_Protocol r \<in> {''tcp'', ''udp''}) \<and>
     fr_PortMin r \<le> fr_PortMax r \<and> (fr_RemoteCIDR r = [] \<or> ParsePrefix_ok (fr_RemoteCIDR r))"

lemma FirewallRule_Validate_None: "FirewallRule_Validate i r = None \<longleftrightarrow> rule_ok r"
  by (auto simp: FirewallRule_Validate_def rule_ok_def)

lemma Firewall_Validate_None: "Firewall_Validate f = None \<longleftrightarrow> (\<forall>r \<in> set (fw_Rules f). rule_ok r)"
proof -
  have step: "validate_rules i (r # rs) = None \<longleftrightarrow> rule_ok r \<and> validate_rules (Suc i) rs = None" for i r rs
    by (cases "FirewallRule_Validate i r") (auto simp flip: FirewallRule_Validate_None [of i])
  have "validate_rules i rs = None \<longleftrightarrow> (\<forall>r \<in> set rs. rule_ok r)" for i rs
    by (induction rs arbitrary: i) (simp_all only: step, simp_all)
  then show ?thesis by (simp add: Firewall_Validate_def)
qed

lemma WireGuard_Validate_None:
  "WireGuard_Validate w = None \<longleftrightarrow> wg_PrivateKey w \<noteq> [] \<and> wg_Address w \<noteq> [] \<and>
     (\<forall>p \<in> set (wg_Peers w). wp_PublicKey p \<noteq> [] \<and> wp_AllowedIPs p \<noteq> [])"
proof -
  have "validate_peers i ps = None \<longleftrightarrow> (\<forall>p \<in> set ps. wp_PublicKey p \<noteq> [] \<and> wp_AllowedIPs p \<noteq> [])" for i ps
    by (induction ps arbitrary: i) auto
  then show ?thesis by (simp add: WireGuard_Validate_def)
qed

end
