(* ===== verification/Go_FS.thy ===== *)
theory Go_FS
  imports Weft_Prelude
begin

text \<open>
  The file system the agent runs on, and the calls of package \<open>os\<close> its sources make.

  A \<open>tree\<close> maps absolute paths (lists of components, the empty one is the root) to regular files,
  directories and other entries; attributes carry mode and owner.  Symbolic links and hard links
  are not modelled.  Every system call may fail for reasons outside the agent: \<open>faults\<close> says what
  the environment does at each call, \<open>clock\<close> counts the calls, and a write may stop half-way
  (\<open>ShortWrite\<close>).  A theorem that holds for all \<open>faults\<close> therefore covers every error path.
  \<open>history\<close> records every tree the file system has been through, newest first: what another
  process, or the next boot after a crash, can see.

  Relative paths are resolved from the root, where the agent is started.
\<close>

section \<open>State\<close>

type_synonym path = "string list"

datatype errno = ENOENT | EEXIST | ENOTDIR | EISDIR | ENOTEMPTY | EINVAL | EBUSY | EOTHER nat

record attr =
  a_mode :: u32
  a_uid :: int
  a_gid :: int

datatype node = Reg attr string | Directory attr | Special

type_synonym tree = "(path \<times> node) list"

datatype fault = NoFault | Fault errno | ShortWrite errno nat

record os =
  os_tree :: tree
  umask :: u32
  euid :: int
  egid :: int
  faults :: "nat \<Rightarrow> fault"
  clock :: nat
  history :: "tree list"

abbreviation lookup :: "os \<Rightarrow> path \<rightharpoonup> node" where
  "lookup s \<equiv> map_of (os_tree s)"

definition is_dir :: "node \<Rightarrow> bool" where
  "is_dir n \<longleftrightarrow> (case n of Directory _ \<Rightarrow> True | _ \<Rightarrow> False)"

definition put :: "path \<Rightarrow> node \<Rightarrow> os \<Rightarrow> os" where
  "put p n s = (let t = AList.update p n (os_tree s) in s\<lparr>os_tree := t, history := t # history s\<rparr>)"

definition del :: "path \<Rightarrow> os \<Rightarrow> os" where
  "del p s = (let t = AList.delete p (os_tree s) in s\<lparr>os_tree := t, history := t # history s\<rparr>)"

definition new_attr :: "u32 \<Rightarrow> os \<Rightarrow> attr" where
  "new_attr perm s = \<lparr>a_mode = and perm (not (umask s)), a_uid = euid s, a_gid = egid s\<rparr>"

definition tick :: "os \<Rightarrow> os" where
  "tick s = s\<lparr>clock := Suc (clock s)\<rparr>"

definition fault_of :: "os \<Rightarrow> errno option" where
  "fault_of s = (case faults s (clock s) of NoFault \<Rightarrow> None | Fault e \<Rightarrow> Some e | ShortWrite e n \<Rightarrow> Some e)"

section \<open>Path resolution\<close>

text \<open>The components of a path name, or the error of a name the kernel refuses.\<close>

definition kpath :: "string \<Rightarrow> errno + path" where
  "kpath name =
     (if name = [] then Inl ENOENT
      else if NUL \<in> set name then Inl EINVAL
      else Inr (clean_loop True [] (Split name CHR ''/'')))"

text \<open>Walking a path from an already visited prefix: a missing component is \<open>ENOENT\<close>, a component
  below something that is not a directory \<open>ENOTDIR\<close>.\<close>

fun walk :: "(path \<rightharpoonup> node) \<Rightarrow> path \<Rightarrow> path \<Rightarrow> errno + node" where
  "walk m pre [] = (case m pre of None \<Rightarrow> Inl ENOENT | Some n \<Rightarrow> Inr n)"
| "walk m pre (c # cs) = (case m pre of
       None \<Rightarrow> Inl ENOENT
     | Some n \<Rightarrow> if is_dir n then walk m (pre @ [c]) cs else Inl ENOTDIR)"

definition resolve :: "string \<Rightarrow> os \<Rightarrow> errno + path \<times> node" where
  "resolve name s = (case kpath name of
       Inl e \<Rightarrow> Inl e
     | Inr p \<Rightarrow> (case walk (lookup s) [] p of Inl e \<Rightarrow> Inl e | Inr n \<Rightarrow> Inr (p, n)))"

text \<open>Whether an entry can be made at a path: its parent has to be a directory.\<close>

definition parent_error :: "path \<Rightarrow> os \<Rightarrow> errno err" where
  "parent_error p s = (if p = [] then None else
     case walk (lookup s) [] (butlast p) of
       Inl e \<Rightarrow> Some e
     | Inr n \<Rightarrow> if is_dir n then None else Some ENOTDIR)"

section \<open>Package os\<close>

definition os_Stat :: "string \<Rightarrow> os \<Rightarrow> (errno + node) \<times> os" where
  "os_Stat name s = (case fault_of s of
       Some e \<Rightarrow> (Inl e, tick s)
     | None \<Rightarrow> (case resolve name s of Inl e \<Rightarrow> (Inl e, tick s) | Inr (p, n) \<Rightarrow> (Inr n, tick s)))"

definition os_ReadFile :: "string \<Rightarrow> os \<Rightarrow> (errno + string) \<times> os" where
  "os_ReadFile name s = (case fault_of s of
       Some e \<Rightarrow> (Inl e, tick s)
     | None \<Rightarrow> (case resolve name s of
         Inl e \<Rightarrow> (Inl e, tick s)
       | Inr (p, n) \<Rightarrow> (case n of
           Reg a c \<Rightarrow> (Inr c, tick s)
         | Directory a \<Rightarrow> (Inl EISDIR, tick s)
         | Special \<Rightarrow> (Inl EINVAL, tick s))))"

definition os_Mkdir :: "path \<Rightarrow> u32 \<Rightarrow> os \<Rightarrow> errno err \<times> os" where
  "os_Mkdir p perm s = (case fault_of s of
       Some e \<Rightarrow> (Some e, tick s)
     | None \<Rightarrow> (case parent_error p s of
         Some e \<Rightarrow> (Some e, tick s)
       | None \<Rightarrow>
           if lookup s p \<noteq> None then (Some EEXIST, tick s)
           else (None, put p (Directory (new_attr perm s)) (tick s))))"

definition stat_path :: "path \<Rightarrow> os \<Rightarrow> (errno + node) \<times> os" where
  "stat_path p s = (case fault_of s of
       Some e \<Rightarrow> (Inl e, tick s)
     | None \<Rightarrow> (walk (lookup s) [] p, tick s))"

text \<open>\<open>os.MkdirAll\<close> on the reversed components: stat, then the parents, then \<open>mkdir\<close>, and a
  second look when \<open>mkdir\<close> failed.\<close>

definition mkdir_or_stat :: "path \<Rightarrow> u32 \<Rightarrow> os \<Rightarrow> errno err \<times> os" where
  "mkdir_or_stat p perm s = (case os_Mkdir p perm s of
       (None, s1) \<Rightarrow> (None, s1)
     | (Some e, s1) \<Rightarrow> (case stat_path p s1 of
         (Inr n, s2) \<Rightarrow> (if is_dir n then None else Some e, s2)
       | (Inl _, s2) \<Rightarrow> (Some e, s2)))"

fun mkdir_all :: "path \<Rightarrow> u32 \<Rightarrow> os \<Rightarrow> errno err \<times> os" where
  "mkdir_all [] perm s = (case stat_path [] s of
       (Inr n, s1) \<Rightarrow> (if is_dir n then None else Some ENOTDIR, s1)
     | (Inl _, s1) \<Rightarrow> mkdir_or_stat [] perm s1)"
| "mkdir_all (c # rp) perm s = (case stat_path (rev (c # rp)) s of
       (Inr n, s1) \<Rightarrow> (if is_dir n then None else Some ENOTDIR, s1)
     | (Inl _, s1) \<Rightarrow> (case (if rp = [] then (None, s1) else mkdir_all rp perm s1) of
         (Some e, s2) \<Rightarrow> (Some e, s2)
       | (None, s2) \<Rightarrow> mkdir_or_stat (rev (c # rp)) perm s2))"

definition os_MkdirAll :: "string \<Rightarrow> u32 \<Rightarrow> os \<Rightarrow> errno err \<times> os" where
  "os_MkdirAll name perm s = (case kpath name of
       Inl e \<Rightarrow> (Some e, s)
     | Inr p \<Rightarrow> mkdir_all (rev p) perm s)"

text \<open>\<open>os.WriteFile\<close>: open with \<open>O_CREATE|O_TRUNC\<close> (an existing file keeps its attributes), then
  write.  The two are separate calls, and the empty file in between is visible.\<close>

definition open_trunc :: "path \<Rightarrow> u32 \<Rightarrow> os \<Rightarrow> (errno + attr) \<times> os" where
  "open_trunc p perm s = (case fault_of s of
       Some e \<Rightarrow> (Inl e, tick s)
     | None \<Rightarrow> (case parent_error p s of
         Some e \<Rightarrow> (Inl e, tick s)
       | None \<Rightarrow> (case lookup s p of
           None \<Rightarrow> (Inr (new_attr perm s), put p (Reg (new_attr perm s) []) (tick s))
         | Some (Reg a c) \<Rightarrow> (Inr a, put p (Reg a []) (tick s))
         | Some (Directory a) \<Rightarrow> (Inl EISDIR, tick s)
         | Some Special \<Rightarrow> (Inl EINVAL, tick s))))"

definition write_data :: "path \<Rightarrow> attr \<Rightarrow> string \<Rightarrow> os \<Rightarrow> errno err \<times> os" where
  "write_data p a data s = (case faults s (clock s) of
       NoFault \<Rightarrow> (None, put p (Reg a data) (tick s))
     | Fault e \<Rightarrow> (Some e, tick s)
     | ShortWrite e n \<Rightarrow> (Some e, put p (Reg a (take n data)) (tick s)))"

definition os_WriteFile :: "string \<Rightarrow> string \<Rightarrow> u32 \<Rightarrow> os \<Rightarrow> errno err \<times> os" where
  "os_WriteFile name data perm s = (case kpath name of
       Inl e \<Rightarrow> (Some e, s)
     | Inr p \<Rightarrow> (case open_trunc p perm s of
         (Inl e, s1) \<Rightarrow> (Some e, s1)
       | (Inr a, s1) \<Rightarrow> write_data p a data s1))"

text \<open>\<open>os.Rename\<close> of a file: it refuses a target that is a directory, and replaces any other target
  in one step.  (Renaming a directory is not modelled; the agent only renames files it has just
  written.)\<close>

definition os_Rename :: "string \<Rightarrow> string \<Rightarrow> os \<Rightarrow> errno err \<times> os" where
  "os_Rename old new s = (case fault_of s of
       Some e \<Rightarrow> (Some e, tick s)
     | None \<Rightarrow> (case (resolve old s, kpath new) of
         (Inl e, _) \<Rightarrow> (Some e, tick s)
       | (Inr (p, n), Inl e) \<Rightarrow> (Some e, tick s)
       | (Inr (p, n), Inr q) \<Rightarrow>
           (case parent_error q s of
              Some e \<Rightarrow> (Some e, tick s)
            | None \<Rightarrow>
                if (case lookup s q of Some n' \<Rightarrow> is_dir n' | None \<Rightarrow> False) then (Some EEXIST, tick s)
                else if is_dir n then (Some EINVAL, tick s)
                else if p = q then (None, tick s)
                else (let t = AList.delete p (AList.update q n (os_tree s))
                      in (None, (tick s)\<lparr>os_tree := t, history := t # history s\<rparr>)))))"

definition children :: "path \<Rightarrow> tree \<Rightarrow> string list" where
  "children p t = sort (remdups (map last (filter (\<lambda>q. q \<noteq> [] \<and> butlast q = p) (map fst t))))"

definition os_Remove :: "string \<Rightarrow> os \<Rightarrow> errno err \<times> os" where
  "os_Remove name s = (case fault_of s of
       Some e \<Rightarrow> (Some e, tick s)
     | None \<Rightarrow> (case resolve name s of
         Inl e \<Rightarrow> (Some e, tick s)
       | Inr (p, n) \<Rightarrow>
           if p = [] then (Some EBUSY, tick s)
           else if is_dir n \<and> children p (os_tree s) \<noteq> [] then (Some ENOTEMPTY, tick s)
           else (None, del p (tick s))))"

definition chown_node :: "int \<Rightarrow> int \<Rightarrow> node \<Rightarrow> node" where
  "chown_node u g n = (case n of
       Reg a c \<Rightarrow> Reg (a\<lparr>a_uid := u, a_gid := g\<rparr>) c
     | Directory a \<Rightarrow> Directory (a\<lparr>a_uid := u, a_gid := g\<rparr>)
     | Special \<Rightarrow> Special)"

definition os_Chown :: "string \<Rightarrow> int \<Rightarrow> int \<Rightarrow> os \<Rightarrow> errno err \<times> os" where
  "os_Chown name u g s = (case fault_of s of
       Some e \<Rightarrow> (Some e, tick s)
     | None \<Rightarrow> (case resolve name s of
         Inl e \<Rightarrow> (Some e, tick s)
       | Inr (p, n) \<Rightarrow> (None, put p (chown_node u g n) (tick s))))"

text \<open>\<open>os.ReadDir\<close>: the entries of a directory, sorted by name.\<close>

definition os_ReadDir :: "string \<Rightarrow> os \<Rightarrow> (errno + (string \<times> node) list) \<times> os" where
  "os_ReadDir name s = (case fault_of s of
       Some e \<Rightarrow> (Inl e, tick s)
     | None \<Rightarrow> (case resolve name s of
         Inl e \<Rightarrow> (Inl e, tick s)
       | Inr (p, n) \<Rightarrow>
           if is_dir n
           then (Inr (map (\<lambda>c. (c, the (lookup s (p @ [c])))) (children p (os_tree s))), tick s)
           else (Inl ENOTDIR, tick s)))"

text \<open>\<open>os.RemoveAll\<close>: everything below the path, deepest entries first, then the path.  A call that
  fails leaves its entry (and so its parents) behind, the others are still tried, and the first
  error is returned.\<close>

definition below :: "path \<Rightarrow> tree \<Rightarrow> path list" where
  "below p t = rev (sort_key length (remdups (filter (\<lambda>q. take (length p) q = p) (map fst t))))"

fun unlink_all :: "path list \<Rightarrow> errno err \<Rightarrow> os \<Rightarrow> errno err \<times> os" where
  "unlink_all [] first s = (first, s)"
| "unlink_all (q # qs) first s = (case fault_of s of
       Some e \<Rightarrow> unlink_all qs (case first of None \<Rightarrow> Some e | Some _ \<Rightarrow> first) (tick s)
     | None \<Rightarrow>
         if q = [] then unlink_all qs (case first of None \<Rightarrow> Some EBUSY | Some _ \<Rightarrow> first) (tick s)
         else if children q (os_tree s) \<noteq> []
         then unlink_all qs (case first of None \<Rightarrow> Some ENOTEMPTY | Some _ \<Rightarrow> first) (tick s)
         else unlink_all qs first (del q (tick s)))"

definition os_RemoveAll :: "string \<Rightarrow> os \<Rightarrow> errno err \<times> os" where
  "os_RemoveAll name s =
     (if name = [] then (None, s)
      else if name = ''.'' \<or> HasPrefix (rev name) ''./'' then (Some EINVAL, s)
      else case fault_of s of
        Some e \<Rightarrow> (if e = ENOENT then None else Some e, tick s)
      | None \<Rightarrow> (case resolve name s of
          Inl e \<Rightarrow> (if e = ENOENT then None else Some e, tick s)
        | Inr (p, n) \<Rightarrow> unlink_all (below p (os_tree s)) None s))"

text \<open>A path as another process sees it, now.\<close>

definition file_content :: "os \<Rightarrow> string \<Rightarrow> string option" where
  "file_content s name = (case kpath name of
       Inl _ \<Rightarrow> None
     | Inr p \<Rightarrow> (case lookup s p of Some (Reg a c) \<Rightarrow> Some c | _ \<Rightarrow> None))"

lemmas os_defs [go_defs] =
  is_dir_def put_def del_def new_attr_def tick_def fault_of_def kpath_def resolve_def parent_error_def
  os_Stat_def os_ReadFile_def os_Mkdir_def stat_path_def mkdir_or_stat_def os_MkdirAll_def open_trunc_def write_data_def
  os_WriteFile_def os_Rename_def children_def os_Remove_def chown_node_def os_Chown_def os_ReadDir_def
  below_def os_RemoveAll_def
  file_content_def

section \<open>Well-formed trees\<close>

text \<open>The root is a directory, and so is the parent of every entry.\<close>

definition wf_map :: "(path \<rightharpoonup> node) \<Rightarrow> bool" where
  "wf_map m \<longleftrightarrow> (\<exists>n. m [] = Some n \<and> is_dir n) \<and>
     (\<forall>p c. m (p @ [c]) \<noteq> None \<longrightarrow> (\<exists>n. m p = Some n \<and> is_dir n))"

text \<open>No fault from outside.\<close>

definition calm :: "os \<Rightarrow> bool" where
  "calm s \<longleftrightarrow> (\<forall>i. faults s i = NoFault)"

text \<open>What no call changes.\<close>

definition same_env :: "os \<Rightarrow> os \<Rightarrow> bool" where
  "same_env s s' \<longleftrightarrow> faults s' = faults s \<and> umask s' = umask s \<and> euid s' = euid s \<and> egid s' = egid s"

text \<open>Every tree between two states satisfies a predicate: what holds at every moment a crash or a
  concurrent reader could pick.\<close>

definition evolves :: "((path \<rightharpoonup> node) \<Rightarrow> bool) \<Rightarrow> os \<Rightarrow> os \<Rightarrow> bool" where
  "evolves I s s' \<longleftrightarrow> I (lookup s') \<and> same_env s s' \<and>
     (\<exists>h. history s' = h @ history s \<and> (\<forall>t \<in> set h. I (map_of t)))"

subsection \<open>Basic facts\<close>

lemma is_dir_simps [simp]:
  "is_dir (Directory a)" "\<not> is_dir (Reg a c)" "\<not> is_dir Special" "is_dir (chown_node u g n) = is_dir n"
  by (auto simp: is_dir_def chown_node_def split: node.splits)

lemma is_dirE: "is_dir n \<Longrightarrow> (\<And>a. n = Directory a \<Longrightarrow> P) \<Longrightarrow> P"
  by (cases n) auto

lemma tick_simps [simp]:
  "os_tree (tick s) = os_tree s" "history (tick s) = history s" "faults (tick s) = faults s"
  "umask (tick s) = umask s" "euid (tick s) = euid s" "egid (tick s) = egid s"
  "clock (tick s) = Suc (clock s)"
  by (simp_all add: tick_def)

lemma lookup_put [simp]: "lookup (put p n s) = (lookup s)(p \<mapsto> n)"
  by (simp add: put_def Let_def update_conv')

lemma lookup_del [simp]: "lookup (del p s) = (lookup s)(p := None)"
  by (simp add: del_def Let_def delete_conv' restrict_map_def fun_eq_iff)

lemma put_env [simp]:
  "faults (put p n s) = faults s" "umask (put p n s) = umask s" "euid (put p n s) = euid s"
  "egid (put p n s) = egid s" "clock (put p n s) = clock s"
  "history (put p n s) = AList.update p n (os_tree s) # history s"
  by (simp_all add: put_def Let_def)

lemma del_env [simp]:
  "faults (del p s) = faults s" "umask (del p s) = umask s" "euid (del p s) = euid s"
  "egid (del p s) = egid s" "clock (del p s) = clock s"
  "history (del p s) = AList.delete p (os_tree s) # history s"
  by (simp_all add: del_def Let_def)

lemma calm_fault [simp]: "calm s \<Longrightarrow> fault_of s = None"
  by (simp add: calm_def fault_of_def)

lemma calm_simps [simp]: "calm (tick s) = calm s" "calm (put p n s) = calm s" "calm (del p s) = calm s"
  by (simp_all add: calm_def)

lemma same_env_refl [simp]: "same_env s s"
  by (simp add: same_env_def)

lemma same_env_trans: "same_env s s1 \<Longrightarrow> same_env s1 s2 \<Longrightarrow> same_env s s2"
  by (simp add: same_env_def)

lemma same_env_calm: "same_env s s' \<Longrightarrow> calm s' = calm s"
  by (simp add: same_env_def calm_def)

lemma wf_root: "wf_map m \<Longrightarrow> \<exists>n. m [] = Some n \<and> is_dir n"
  by (simp add: wf_map_def)

lemma wf_parent: "wf_map m \<Longrightarrow> m (p @ [c]) = Some n \<Longrightarrow> \<exists>n'. m p = Some n' \<and> is_dir n'"
  by (auto simp: wf_map_def)

lemma wf_ancestor: "wf_map m \<Longrightarrow> m (p @ q) = Some n \<Longrightarrow> q \<noteq> [] \<Longrightarrow> \<exists>n'. m p = Some n' \<and> is_dir n'"
proof (induction q arbitrary: n rule: rev_induct)
  case (snoc c q)
  then obtain n' where "m (p @ q) = Some n'" and "is_dir n'"
    using wf_parent [of m "p @ q" c n] by auto
  then show ?case using snoc by (cases "q = []") auto
qed simp

lemma walk_Inr: "walk m pre cs = Inr n \<Longrightarrow> m (pre @ cs) = Some n"
  by (induction m pre cs rule: walk.induct) (auto split: option.splits if_splits)

lemma wf_walk: "wf_map m \<Longrightarrow> m (pre @ cs) = Some n \<Longrightarrow> walk m pre cs = Inr n"
proof (induction cs arbitrary: pre)
  case (Cons c cs)
  then obtain n' where "m pre = Some n'" "is_dir n'"
    using wf_ancestor [of m pre "c # cs" n] by auto
  with Cons show ?case by simp
qed simp

lemma walk_Inr_iff: "wf_map m \<Longrightarrow> walk m [] p = Inr n \<longleftrightarrow> m p = Some n"
  using walk_Inr [of m "[]" p n] wf_walk [of m "[]" p n] by auto

text \<open>On a well-formed tree, a walk fails with \<open>ENOENT\<close> unless it meets a file on its way.\<close>

lemma walk_missing:
  assumes "m (pre @ cs) = None"
    and "\<And>q r n. cs = q @ r \<Longrightarrow> r \<noteq> [] \<Longrightarrow> m (pre @ q) = Some n \<Longrightarrow> is_dir n"
  shows "walk m pre cs = Inl ENOENT"
  using assms
proof (induction cs arbitrary: pre)
  case (Cons c cs)
  show ?case
  proof (cases "m pre")
    case None
    then show ?thesis by simp
  next
    case (Some n)
    with Cons.prems(2) [of "[]" "c # cs" n] have "is_dir n" by simp
    moreover have "walk m (pre @ [c]) cs = Inl ENOENT"
    proof (rule Cons.IH)
      show "m ((pre @ [c]) @ cs) = None" using Cons.prems(1) by simp
      show "is_dir n" if "cs = q @ r" "r \<noteq> []" "m ((pre @ [c]) @ q) = Some n" for q r n
        using Cons.prems(2) [of "c # q" r n] that by simp
    qed
    ultimately show ?thesis using Some by simp
  qed
qed simp

lemma wf_update:
  assumes wf: "wf_map m"
    and parent: "p \<noteq> [] \<Longrightarrow> \<exists>n'. m (butlast p) = Some n' \<and> is_dir n'"
    and kind: "is_dir n \<or> (p \<noteq> [] \<and> (m p = None \<or> (\<exists>n0. m p = Some n0 \<and> \<not> is_dir n0)))"
  shows "wf_map (m(p \<mapsto> n))"
  unfolding wf_map_def
proof (intro conjI allI impI)
  show "\<exists>n'. (m(p \<mapsto> n)) [] = Some n' \<and> is_dir n'"
    using wf_root [OF wf] kind by auto
next
  fix q c
  assume ex: "(m(p \<mapsto> n)) (q @ [c]) \<noteq> None"
  show "\<exists>n'. (m(p \<mapsto> n)) q = Some n' \<and> is_dir n'"
  proof (cases "q = p")
    case True
    with ex obtain n1 where "m (p @ [c]) = Some n1" by auto
    from wf_parent [OF wf this] kind True show ?thesis by auto
  next
    case False
    show ?thesis
    proof (cases "q @ [c] = p")
      case True
      then have "butlast p = q" and "p \<noteq> []" by auto
      with parent False show ?thesis by auto
    next
      case neq: False
      with ex obtain n1 where "m (q @ [c]) = Some n1" by auto
      from wf_parent [OF wf this] False show ?thesis by auto
    qed
  qed
qed

lemma parent_error_None:
  "parent_error p s = None \<Longrightarrow> p \<noteq> [] \<Longrightarrow> \<exists>n. lookup s (butlast p) = Some n \<and> is_dir n"
  by (auto simp: parent_error_def split: sum.splits if_splits dest: walk_Inr)

lemma wf_parent_error_None:
  "wf_map (lookup s) \<Longrightarrow> lookup s (butlast p) = Some n \<Longrightarrow> is_dir n \<Longrightarrow> parent_error p s = None"
  by (simp add: parent_error_def wf_walk [where pre = "[]"])

lemma resolve_Inr: "resolve name s = Inr (p, n) \<Longrightarrow> kpath name = Inr p \<and> lookup s p = Some n"
  by (auto simp: resolve_def split: sum.splits dest: walk_Inr)

lemma wf_resolve: "wf_map (lookup s) \<Longrightarrow> kpath name = Inr p \<Longrightarrow> lookup s p = Some n \<Longrightarrow> resolve name s = Inr (p, n)"
  by (simp add: resolve_def wf_walk [where pre = "[]"])

subsection \<open>Every moment of a call\<close>

lemma evolvesD: "evolves I s s' \<Longrightarrow> I (lookup s')"
  by (simp add: evolves_def)

lemma evolves_env: "evolves I s s' \<Longrightarrow> same_env s s'"
  by (simp add: evolves_def)

lemma evolves_refl: "I (lookup s) \<Longrightarrow> evolves I s s"
  by (simp add: evolves_def)

lemma evolves_trans [trans]: "evolves I s s1 \<Longrightarrow> evolves I s1 s2 \<Longrightarrow> evolves I s s2"
  by (fastforce simp: evolves_def intro: same_env_trans)

lemma evolves_mono: "evolves I s s' \<Longrightarrow> (\<And>m. I m \<Longrightarrow> J m) \<Longrightarrow> evolves J s s'"
  by (fastforce simp: evolves_def)

lemma evolves_tick: "I (lookup s) \<Longrightarrow> evolves I s (tick s)"
  by (simp add: evolves_def same_env_def)

lemma evolves_put: "I ((lookup s)(p \<mapsto> n)) \<Longrightarrow> evolves I s (put p n (tick s))"
  by (simp add: evolves_def same_env_def update_conv')

lemma evolves_del: "I ((lookup s)(p := None)) \<Longrightarrow> evolves I s (del p (tick s))"
  by (simp add: evolves_def same_env_def delete_conv' restrict_map_def fun_upd_def cong: if_cong)

lemmas evolves_intros = evolves_refl evolves_tick evolves_put evolves_del

lemma evolves_Stat: "I (lookup s) \<Longrightarrow> evolves I s (snd (os_Stat name s))"
  by (auto simp: os_Stat_def intro: evolves_tick split: option.splits sum.splits)

lemma evolves_ReadFile: "I (lookup s) \<Longrightarrow> evolves I s (snd (os_ReadFile name s))"
  by (auto simp: os_ReadFile_def intro: evolves_tick split: option.splits sum.splits node.splits)

lemma evolves_ReadDir: "I (lookup s) \<Longrightarrow> evolves I s (snd (os_ReadDir name s))"
  by (auto simp: os_ReadDir_def intro: evolves_tick split: option.splits sum.splits)

lemma evolves_stat_path: "I (lookup s) \<Longrightarrow> evolves I s (snd (stat_path p s))"
  by (auto simp: stat_path_def intro: evolves_tick split: option.splits)

lemma evolves_Mkdir:
  "I (lookup s) \<Longrightarrow> (\<And>a. lookup s p = None \<Longrightarrow> I ((lookup s)(p \<mapsto> Directory a))) \<Longrightarrow>
     evolves I s (snd (os_Mkdir p perm s))"
  by (auto simp: os_Mkdir_def intro: evolves_tick evolves_put split: option.splits)

text \<open>\<open>MkdirAll\<close> makes directories at prefixes of its path where nothing was, and nothing else.\<close>

lemma evolves_mkdir_or_stat:
  assumes "I (lookup s)" and "\<And>a. lookup s p = None \<Longrightarrow> I ((lookup s)(p \<mapsto> Directory a))"
  shows "evolves I s (snd (mkdir_or_stat p perm s))"
proof -
  obtain r1 s1 where 1: "os_Mkdir p perm s = (r1, s1)" by force
  with evolves_Mkdir [where I = I, OF assms, of perm] have e1: "evolves I s s1" by simp
  obtain r2 s2 where 2: "stat_path p s1 = (r2, s2)" by force
  with evolves_stat_path [where I = I, OF evolvesD [OF e1], of p] have e2: "evolves I s1 s2" by simp
  from 1 2 e1 evolves_trans [OF e1 e2] show ?thesis
    by (auto simp: mkdir_or_stat_def split: sum.splits option.splits)
qed

lemma evolves_mkdir_all:
  assumes "I (lookup s)"
    and "\<And>m q r a. I m \<Longrightarrow> rev rp = q @ r \<Longrightarrow> m q = None \<Longrightarrow> I (m(q \<mapsto> Directory a))"
  shows "evolves I s (snd (mkdir_all rp perm s))"
  using assms
proof (induction rp arbitrary: s)
  case Nil
  obtain r1 s1 where 1: "stat_path [] s = (r1, s1)" by force
  with evolves_stat_path [where I = I, OF Nil.prems(1), of "[]"] have e1: "evolves I s s1" by simp
  have "evolves I s1 (snd (mkdir_or_stat [] perm s1))"
    by (rule evolves_mkdir_or_stat [where I = I, OF evolvesD [OF e1]]) (simp add: Nil.prems(2) evolvesD [OF e1])
  with 1 e1 show ?case by (auto intro: evolves_trans split: sum.splits)
next
  case (Cons c rp)
  let ?p = "rev (c # rp)"
  obtain r1 s1 where 1: "stat_path ?p s = (r1, s1)" by force
  with evolves_stat_path [where I = I, OF Cons.prems(1), of ?p] have e1: "evolves I s s1" by simp
  obtain r2 s2 where 2: "(if rp = [] then (None, s1) else mkdir_all rp perm s1) = (r2, s2)" by force
  have "evolves I s1 (snd (mkdir_all rp perm s1))"
  proof (rule Cons.IH [OF evolvesD [OF e1]])
    show "I (m(q \<mapsto> Directory a))" if "I m" "rev rp = q @ r" "m q = None" for m q r a
      by (rule Cons.prems(2) [where r = "r @ [c]"]) (use that in simp_all)
  qed
  moreover have "evolves I s1 s1" by (rule evolves_refl) (rule evolvesD [OF e1])
  ultimately have e2: "evolves I s1 s2" using 2 by (cases "rp = []") auto
  have "evolves I s2 (snd (mkdir_or_stat ?p perm s2))"
    by (rule evolves_mkdir_or_stat [where I = I, OF evolvesD [OF e2]])
      (rule Cons.prems(2) [where r = "[]"], auto intro: evolvesD [OF e2])
  then have "evolves I s (snd (mkdir_or_stat ?p perm s2))" and "evolves I s s2"
    using e1 e2 by (blast intro: evolves_trans)+
  with 1 2 e1 show ?case by (auto split: sum.splits option.splits)
qed

lemma evolves_MkdirAll:
  assumes "I (lookup s)"
    and "\<And>m p q r a. kpath name = Inr p \<Longrightarrow> I m \<Longrightarrow> p = q @ r \<Longrightarrow> m q = None \<Longrightarrow> I (m(q \<mapsto> Directory a))"
  shows "evolves I s (snd (os_MkdirAll name perm s))"
  using assms by (auto simp: os_MkdirAll_def intro!: evolves_refl evolves_mkdir_all split: sum.splits)

lemma evolves_write_data:
  "I (lookup s) \<Longrightarrow> (\<And>c. I ((lookup s)(p \<mapsto> Reg a c))) \<Longrightarrow> evolves I s (snd (write_data p a data s))"
  by (auto simp: write_data_def intro: evolves_tick evolves_put split: fault.splits)

lemma evolves_open_trunc:
  "I (lookup s) \<Longrightarrow> (\<And>a. I ((lookup s)(p \<mapsto> Reg a []))) \<Longrightarrow> evolves I s (snd (open_trunc p perm s))"
  by (auto simp: open_trunc_def intro: evolves_tick evolves_put split: option.splits node.splits)

lemma evolves_WriteFile:
  assumes "I (lookup s)"
    and "\<And>m p a c. kpath name = Inr p \<Longrightarrow> I m \<Longrightarrow> I (m(p \<mapsto> Reg a c))"
  shows "evolves I s (snd (os_WriteFile name data perm s))"
proof (cases "kpath name")
  case (Inl e)
  then show ?thesis using assms(1) by (simp add: os_WriteFile_def evolves_refl)
next
  case (Inr p)
  obtain r1 s1 where 1: "open_trunc p perm s = (r1, s1)" by force
  have e1: "evolves I s s1"
    using evolves_open_trunc [where I = I, OF assms(1), of p perm] assms(2) [OF Inr assms(1)] 1 by simp
  have "evolves I s1 (snd (write_data p a data s1))" for a
    by (intro evolves_write_data evolvesD [OF e1] assms(2) [OF Inr])
  with 1 Inr e1 show ?thesis
    by (auto simp: os_WriteFile_def intro: evolves_trans split: sum.splits)
qed

lemma lookup_rename:
  "map_of (AList.delete p (AList.update q n t)) = (map_of t)(q \<mapsto> n, p := None)"
  by (auto simp: delete_conv' update_conv' restrict_map_def fun_eq_iff)

lemma evolves_Rename:
  assumes "I (lookup s)"
    and "\<And>p q n. kpath old = Inr p \<Longrightarrow> kpath new = Inr q \<Longrightarrow> p \<noteq> q \<Longrightarrow> lookup s p = Some n \<Longrightarrow>
           \<not> is_dir n \<Longrightarrow> I ((lookup s)(q \<mapsto> n, p := None))"
  shows "evolves I s (snd (os_Rename old new s))"
  using assms(1)
  by (auto simp: os_Rename_def Let_def evolves_def same_env_def lookup_rename
      dest!: resolve_Inr intro!: assms(2) split: option.splits sum.splits)

lemma evolves_Remove:
  assumes "I (lookup s)"
    and "\<And>p n. kpath name = Inr p \<Longrightarrow> lookup s p = Some n \<Longrightarrow> I ((lookup s)(p := None))"
  shows "evolves I s (snd (os_Remove name s))"
  using assms(1)
  by (auto simp: os_Remove_def dest!: resolve_Inr intro!: evolves_tick evolves_del assms(2)
      split: option.splits sum.splits)

lemma evolves_Chown:
  assumes "I (lookup s)"
    and "\<And>p n. kpath name = Inr p \<Longrightarrow> lookup s p = Some n \<Longrightarrow> I ((lookup s)(p \<mapsto> chown_node u g n))"
  shows "evolves I s (snd (os_Chown name u g s))"
  using assms(1)
  by (auto simp: os_Chown_def dest!: resolve_Inr intro!: evolves_tick evolves_put assms(2)
      split: option.splits sum.splits)

subsection \<open>What a successful call has done\<close>

lemma WriteFile_ok:
  assumes "os_WriteFile name data perm s = (None, s')" and "kpath name = Inr p"
  shows "\<exists>a. lookup s' = (lookup s)(p \<mapsto> Reg a data)"
    and "lookup s p = None \<Longrightarrow> lookup s' = (lookup s)(p \<mapsto> Reg (new_attr perm s) data)"
  using assms
  by (auto simp: os_WriteFile_def open_trunc_def write_data_def split: option.splits node.splits fault.splits)

lemma Rename_ok:
  assumes "os_Rename old new s = (None, s')" and "kpath old = Inr p" and "kpath new = Inr q" and "p \<noteq> q"
  shows "\<exists>n. lookup s p = Some n \<and> \<not> is_dir n \<and> lookup s' = (lookup s)(q \<mapsto> n, p := None)"
  using assms
  by (auto simp: os_Rename_def Let_def lookup_rename dest!: resolve_Inr split: option.splits sum.splits if_splits)

lemma Rename_error: "os_Rename old new s = (Some e, s') \<Longrightarrow> lookup s' = lookup s"
  by (auto simp: os_Rename_def Let_def split: option.splits sum.splits if_splits)

lemma mkdir_or_stat_ok: "mkdir_or_stat p perm s = (None, s') \<Longrightarrow> \<exists>n. lookup s' p = Some n \<and> is_dir n"
  by (auto simp: mkdir_or_stat_def stat_path_def os_Mkdir_def split: sum.splits option.splits if_splits
      dest!: walk_Inr)

lemma mkdir_all_ok: "mkdir_all rp perm s = (None, s') \<Longrightarrow> \<exists>n. lookup s' (rev rp) = Some n \<and> is_dir n"
  by (cases rp)
    (auto simp: stat_path_def split: sum.splits option.splits if_splits prod.splits
      dest!: walk_Inr mkdir_or_stat_ok)

end
