(* ===== verification/Containers.thy ===== *)
theory Containers
  imports Pod Go_FS
begin

text \<open>
  Package \<open>containers\<close>: the reconciler that drives a container runtime to the published set, the
  in-memory \<open>StubRuntime\<close>, the production \<open>CrunRuntime\<close>, and the message handler.

  A runtime is a record of operations over a state of its own.  The mutex of \<open>Reconciler\<close> makes
  \<open>Apply\<close> atomic, so one call is one function.  The order in which Go visits the keys of
  \<open>r.desired\<close> is an argument.
\<close>

section \<open>The reconciler\<close>

record ('s, 'e) Runtime =
  rt_Pull :: "string \<Rightarrow> 's \<Rightarrow> 'e err \<times> 's"
  rt_Start :: "WorkloadContainer \<Rightarrow> 's \<Rightarrow> 'e err \<times> 's"
  rt_Stop :: "string \<Rightarrow> 's \<Rightarrow> 'e err \<times> 's"
  rt_Running :: "'s \<Rightarrow> ('e + string list) \<times> 's"

record Reconciler =
  rc_desired :: "string \<rightharpoonup> WorkloadContainer"

datatype 'e apply_error = DecodeSet | InvalidSet pod_error | PullError string 'e | RuntimeError 'e

definition Subject :: "string \<Rightarrow> string" where
  "Subject vmID = ''weft.containers.'' @ vmID"

definition NewReconciler :: Reconciler where
  "NewReconciler = \<lparr>rc_desired = Map.empty\<rparr>"

text \<open>A Go map read: a missing key reads as the zero value.\<close>

definition go_get :: "(string \<times> string) list \<Rightarrow> string \<Rightarrow> string" where
  "go_get m k = (case map_of m k of None \<Rightarrow> [] | Some v \<Rightarrow> v)"

fun stringSliceEq :: "string list \<Rightarrow> string list \<Rightarrow> bool" where
  "stringSliceEq [] [] = True"
| "stringSliceEq (x # xs) (y # ys) = (x = y \<and> stringSliceEq xs ys)"
| "stringSliceEq _ _ = False"

definition containerEqual :: "WorkloadContainer \<Rightarrow> WorkloadContainer \<Rightarrow> bool" where
  "containerEqual a b =
     (if wc_Image a \<noteq> wc_Image b \<or> wc_WorkingDir a \<noteq> wc_WorkingDir b \<or> wc_Net a \<noteq> wc_Net b then False
      else if \<not> stringSliceEq (wc_Command a) (wc_Command b) \<or> \<not> stringSliceEq (wc_Args a) (wc_Args b) then False
      else if length (wc_Env a) \<noteq> length (wc_Env b) then False
      else if \<not> list_all (\<lambda>k. go_get (wc_Env b) k = go_get (wc_Env a) k) (map fst (wc_Env a)) then False
      else wc_Mounts a = wc_Mounts b)"

definition record_error :: "'e err \<Rightarrow> 'e err \<Rightarrow> 'e err" where
  "record_error firstErr e = (if e \<noteq> None \<and> firstErr = None then e else firstErr)"

text \<open>The loop over the containers that are no longer wanted.\<close>

fun apply_drops :: "('s, 'e) Runtime \<Rightarrow> (string \<rightharpoonup> WorkloadContainer) \<Rightarrow> string list \<Rightarrow>
    'e apply_error err \<Rightarrow> 's \<Rightarrow> 'e apply_error err \<times> 's" where
  "apply_drops rt nxt [] fe s = (fe, s)"
| "apply_drops rt nxt (name # names) fe s =
     (if nxt name \<noteq> None then apply_drops rt nxt names fe s
      else case rt_Stop rt name s of
        (e, s1) \<Rightarrow> apply_drops rt nxt names (record_error fe (map_option RuntimeError e)) s1)"

text \<open>The body of the loop over the wanted names.\<close>

definition apply_one :: "('s, 'e) Runtime \<Rightarrow> WorkloadContainer option \<Rightarrow> WorkloadContainer \<Rightarrow>
    'e apply_error err \<Rightarrow> 's \<Rightarrow> 'e apply_error err \<times> 's" where
  "apply_one rt prev want fe s =
     (if (case prev of Some p \<Rightarrow> containerEqual p want | None \<Rightarrow> False) then (fe, s)
      else
        let (fe1, s1) = (case prev of
              None \<Rightarrow> (fe, s)
            | Some _ \<Rightarrow> (case rt_Stop rt (wc_Name want) s of
                (e, s1) \<Rightarrow> (record_error fe (map_option RuntimeError e), s1)))
        in case rt_Pull rt (wc_Image want) s1 of
             (Some e, s2) \<Rightarrow> (record_error fe1 (Some (PullError (wc_Image want) e)), s2)
           | (None, s2) \<Rightarrow> (case rt_Start rt want s2 of
               (e, s3) \<Rightarrow> (record_error fe1 (map_option RuntimeError e), s3)))"

fun apply_names :: "('s, 'e) Runtime \<Rightarrow> (string \<rightharpoonup> WorkloadContainer) \<Rightarrow> (string \<rightharpoonup> WorkloadContainer) \<Rightarrow>
    string list \<Rightarrow> 'e apply_error err \<Rightarrow> 's \<Rightarrow> 'e apply_error err \<times> 's" where
  "apply_names rt desired nxt [] fe s = (fe, s)"
| "apply_names rt desired nxt (name # names) fe s =
     (case apply_one rt (desired name) (the (nxt name)) fe s of
        (fe1, s1) \<Rightarrow> apply_names rt desired nxt names fe1 s1)"

definition next_of :: "WorkloadContainer list \<Rightarrow> string \<rightharpoonup> WorkloadContainer" where
  "next_of cs = fold (\<lambda>c m. m(wc_Name c \<mapsto> c)) cs Map.empty"

definition Apply :: "('s, 'e) Runtime \<Rightarrow> string list \<Rightarrow> ContainerSet \<Rightarrow> Reconciler \<Rightarrow> 's \<Rightarrow>
    'e apply_error err \<times> Reconciler \<times> 's" where
  "Apply rt ord cset r s = (case ContainerSet_Validate cset of
       (Some e, _) \<Rightarrow> (Some (InvalidSet e), r, s)
     | (None, cset') \<Rightarrow>
         let nxt = next_of (cs_Containers cset');
             (fe1, s1) = apply_drops rt nxt ord None s;
             names = sort (remdups (map wc_Name (cs_Containers cset')));
             (fe2, s2) = apply_names rt (rc_desired r) nxt names fe1 s1
         in (fe2, r\<lparr>rc_desired := nxt\<rparr>, s2))"

definition HandleMessage :: "('s, 'e) Runtime \<Rightarrow> string list \<Rightarrow> string \<Rightarrow> Reconciler \<Rightarrow> 's \<Rightarrow>
    'e apply_error err \<times> Reconciler \<times> 's" where
  "HandleMessage rt ord data r s = (case Unmarshal dec_ContainerSet ContainerSet_zero data of
       None \<Rightarrow> (Some DecodeSet, r, s)
     | Some cset \<Rightarrow> Apply rt ord cset r s)"

section \<open>StubRuntime\<close>

record StubRuntime =
  sr_Pulled :: "string set"
  sr_Started :: "string \<rightharpoonup> WorkloadContainer"

definition NewStubRuntime :: StubRuntime where
  "NewStubRuntime = \<lparr>sr_Pulled = {}, sr_Started = Map.empty\<rparr>"

definition Stub_Pull :: "string \<Rightarrow> StubRuntime \<Rightarrow> unit err \<times> StubRuntime" where
  "Stub_Pull img s = (None, s\<lparr>sr_Pulled := insert img (sr_Pulled s)\<rparr>)"

definition Stub_Start :: "WorkloadContainer \<Rightarrow> StubRuntime \<Rightarrow> unit err \<times> StubRuntime" where
  "Stub_Start c s = (None, s\<lparr>sr_Started := (sr_Started s)(wc_Name c \<mapsto> c)\<rparr>)"

definition Stub_Stop :: "string \<Rightarrow> StubRuntime \<Rightarrow> unit err \<times> StubRuntime" where
  "Stub_Stop name s = (None, s\<lparr>sr_Started := (sr_Started s)(name := None)\<rparr>)"

text \<open>\<open>Running\<close> visits the started map in the order it is given.\<close>

definition Stub_Running :: "string list \<Rightarrow> StubRuntime \<Rightarrow> (unit + string list) \<times> StubRuntime" where
  "Stub_Running ord s = (Inr (filter (\<lambda>k. sr_Started s k \<noteq> None) ord), s)"

definition Stub :: "string list \<Rightarrow> (StubRuntime, unit) Runtime" where
  "Stub ord = \<lparr>rt_Pull = Stub_Pull, rt_Start = Stub_Start, rt_Stop = Stub_Stop, rt_Running = Stub_Running ord\<rparr>"

lemmas stub_defs = Stub_def Stub_Pull_def Stub_Start_def Stub_Stop_def Stub_Running_def NewStubRuntime_def

section \<open>Lemmas on the operations\<close>

lemma stringSliceEq_iff [simp]: "stringSliceEq xs ys \<longleftrightarrow> xs = ys"
  by (induction xs ys rule: stringSliceEq.induct) auto

lemma containerEqual_refl [simp]: "containerEqual c c"
  by (simp add: containerEqual_def list_all_iff)

text \<open>What a restart is for: everything of a container but its name, restart policy and annotations.\<close>

definition identity :: "WorkloadContainer \<Rightarrow> string \<times> string \<times> string \<times> string list \<times> string list \<times>
    (string \<rightharpoonup> string) \<times> ContainerMount list" where
  "identity c = (wc_Image c, wc_WorkingDir c, wc_Net c, wc_Command c, wc_Args c, map_of (wc_Env c), wc_Mounts c)"

text \<open>The environments for which the comparison by zero values decides equality of maps.\<close>

definition env_set :: "WorkloadContainer \<Rightarrow> bool" where
  "env_set c \<longleftrightarrow> distinct (map fst (wc_Env c)) \<and> [] \<notin> snd ` set (wc_Env c)"

lemma go_get_Some: "map_of m k = Some v \<Longrightarrow> go_get m k = v"
  by (simp add: go_get_def)

lemma env_sub:
  assumes "distinct (map fst a)" and "[] \<notin> snd ` set a"
    and "\<forall>k \<in> fst ` set a. go_get b k = go_get a k"
  shows "map_of a \<subseteq>\<^sub>m map_of b"
  unfolding map_le_def
proof
  fix k
  assume "k \<in> dom (map_of a)"
  then obtain v where v: "map_of a k = Some v" by blast
  then have mem: "(k, v) \<in> set a" by (rule map_of_SomeD)
  with assms(2) have "v \<noteq> []" by force
  moreover from mem assms(3) v have "go_get b k = v" by (force simp: go_get_def)
  ultimately show "map_of a k = map_of b k" using v by (auto simp: go_get_def split: option.splits)
qed

lemma map_le_eq:
  assumes "map_of a \<subseteq>\<^sub>m map_of b" "distinct (map fst a)" "distinct (map fst b)" "length a = length b"
  shows "map_of a = map_of b"
proof -
  have "card (dom (map_of a)) = length a" "card (dom (map_of b)) = length b"
    using assms(2,3) by (metis dom_map_of_conv_image_fst length_map list.set_map distinct_card)+
  moreover have "dom (map_of a) \<subseteq> dom (map_of b)" using assms(1) by (rule map_le_implies_dom_le)
  ultimately have "dom (map_of a) = dom (map_of b)"
    using assms(4) by (metis card_subset_eq finite_dom_map_of)
  with assms(1) show ?thesis by (metis map_le_antisym map_le_def)
qed

lemma length_of_map_eq:
  assumes "map_of a = map_of b" "distinct (map fst a)" "distinct (map fst b)"
  shows "length a = length b"
  using assms by (metis dom_map_of_conv_image_fst length_map list.set_map distinct_card)

lemma containerEqual_identity:
  assumes "env_set a" and "distinct (map fst (wc_Env b))"
  shows "containerEqual a b \<longleftrightarrow> identity a = identity b"
proof
  assume eq: "containerEqual a b"
  then have "map_of (wc_Env a) = map_of (wc_Env b)"
    using assms env_sub [of "wc_Env a" "wc_Env b"]
    by (intro map_le_eq) (auto simp: containerEqual_def env_set_def list_all_iff split: if_splits)
  with eq show "identity a = identity b"
    by (simp add: containerEqual_def identity_def split: if_splits)
next
  assume "identity a = identity b"
  then show "containerEqual a b"
    using assms length_of_map_eq [of "wc_Env a" "wc_Env b"]
    by (auto simp: containerEqual_def identity_def list_all_iff env_set_def go_get_def)
qed

lemma next_of_dom: "dom (next_of cs) = wc_Name ` set cs"
proof -
  have "dom (fold (\<lambda>c m. m(wc_Name c \<mapsto> c)) cs m) = dom m \<union> wc_Name ` set cs" for m
    by (induction cs arbitrary: m) auto
  then show ?thesis by (simp add: next_of_def)
qed

lemma next_of_name:
  assumes "next_of cs n = Some c"
  shows "wc_Name c = n \<and> c \<in> set cs"
proof -
  have "fold (\<lambda>c m. m(wc_Name c \<mapsto> c)) cs m n = Some c \<Longrightarrow> m n = Some c \<or> (wc_Name c = n \<and> c \<in> set cs)" for m
  proof (induction cs arbitrary: m)
    case (Cons a cs)
    from Cons.IH [of "m(wc_Name a \<mapsto> a)"] Cons.prems show ?case by (auto split: if_splits)
  qed simp
  from this [of Map.empty] assms show ?thesis by (simp add: next_of_def)
qed

lemma next_of_mem:
  assumes "distinct (map wc_Name cs)" and "c \<in> set cs"
  shows "next_of cs (wc_Name c) = Some c"
proof -
  from assms(2) have "wc_Name c \<in> dom (next_of cs)" by (simp add: next_of_dom)
  then obtain d where d: "next_of cs (wc_Name c) = Some d" by blast
  from next_of_name [OF d] assms have "d = c" by (auto simp: distinct_map dest: inj_onD)
  with d show ?thesis by simp
qed

lemma record_error_None [simp]: "record_error fe e = None \<longleftrightarrow> fe = None \<and> e = None"
  by (auto simp: record_error_def)

section \<open>The contract of a runtime\<close>

text \<open>What the reconciler relies on: \<open>running\<close> is the set of live containers, \<open>Pull\<close> leaves it alone,
  and \<open>Start\<close> and \<open>Stop\<close> change it at their own name only and do so when they report success.\<close>

locale runtime_contract =
  fixes rt :: "('s, 'e) Runtime" and running :: "'s \<Rightarrow> string \<rightharpoonup> WorkloadContainer"
  assumes Pull_running: "running (snd (rt_Pull rt img s)) = running s"
    and Start_starts: "rt_Start rt c s = (None, s') \<Longrightarrow> running s' (wc_Name c) = Some c"
    and Start_frame: "n \<noteq> wc_Name c \<Longrightarrow> running (snd (rt_Start rt c s)) n = running s n"
    and Stop_stops: "rt_Stop rt n s = (None, s') \<Longrightarrow> running s' n = None"
    and Stop_frame: "m \<noteq> n \<Longrightarrow> running (snd (rt_Stop rt n s)) m = running s m"
begin

lemma drops_frame:
  "nxt n \<noteq> None \<or> n \<notin> set ord \<Longrightarrow> running (snd (apply_drops rt nxt ord fe s)) n = running s n"
proof (induction ord arbitrary: fe s)
  case (Cons m ord)
  obtain e s1 where 1: "rt_Stop rt m s = (e, s1)" by force
  with Cons Stop_frame [of n m s] show ?case by (cases "n = m") auto
qed simp

lemma drops_ok:
  "apply_drops rt nxt ord fe s = (None, s') \<Longrightarrow>
     fe = None \<and> (\<forall>n \<in> set ord. nxt n = None \<longrightarrow> running s' n = None)"
proof (induction ord arbitrary: fe s)
  case (Cons m ord)
  show ?case
  proof (cases "nxt m")
    case None
    obtain e s1 where 1: "rt_Stop rt m s = (e, s1)" by force
    with Cons.prems None have 2: "apply_drops rt nxt ord (record_error fe (map_option RuntimeError e)) s1 = (None, s')"
      by simp
    from Cons.IH [OF this] have "e = None" "fe = None" and rest: "\<forall>n \<in> set ord. nxt n = None \<longrightarrow> running s' n = None"
      by auto
    moreover have "running s' m = None" if "m \<notin> set ord"
      using drops_frame [of nxt m ord "record_error fe (map_option RuntimeError e)" s1] that 2
        Stop_stops [of m s s1] 1 \<open>e = None\<close> by simp
    ultimately show ?thesis using None by auto
  qed (use Cons in auto)
qed simp

lemma one_frame:
  assumes "n \<noteq> wc_Name want"
  shows "running (snd (apply_one rt prev want fe s)) n = running s n"
proof -
  have 1: "running s1 n = running s n" if "rt_Stop rt (wc_Name want) s = (e, s1)" for e s1
    using Stop_frame [OF assms, of s] that by simp
  have 2: "running s2 = running s1" if "rt_Pull rt img s1 = (e, s2)" for img s1 e s2
    using Pull_running [of img s1] that by simp
  have 3: "running s3 n = running s2 n" if "rt_Start rt want s2 = (e, s3)" for s2 e s3
    using Start_frame [OF assms, of s2] that by simp
  show ?thesis
    by (auto simp: apply_one_def Let_def 1 2 3 split: option.splits prod.splits)
qed

lemma one_ok:
  "apply_one rt prev want fe s = (None, s') \<Longrightarrow>
     fe = None \<and> (running s' (wc_Name want) = Some want \<or>
       (\<exists>p. prev = Some p \<and> containerEqual p want \<and> s' = s))"
  by (auto simp: apply_one_def intro: Start_starts split: option.splits prod.splits if_splits)

lemma names_frame:
  "\<forall>m \<in> set names. wc_Name (the (nxt m)) = m \<Longrightarrow> n \<notin> set names \<Longrightarrow>
     running (snd (apply_names rt desired nxt names fe s)) n = running s n"
proof (induction names arbitrary: fe s)
  case (Cons m names)
  obtain fe1 s1 where 1: "apply_one rt (desired m) (the (nxt m)) fe s = (fe1, s1)" by force
  with one_frame [of n "the (nxt m)" "desired m" fe s] Cons show ?case by simp
qed simp

lemma names_ok:
  assumes "apply_names rt desired nxt names fe s = (None, s')"
    and "distinct names" and "\<forall>m \<in> set names. wc_Name (the (nxt m)) = m"
  shows "fe = None \<and> (\<forall>n \<in> set names. running s' n = Some (the (nxt n)) \<or>
    (\<exists>p. desired n = Some p \<and> containerEqual p (the (nxt n)) \<and> running s' n = running s n))"
  using assms
proof (induction names arbitrary: fe s)
  case (Cons m names)
  obtain fe1 s1 where 1: "apply_one rt (desired m) (the (nxt m)) fe s = (fe1, s1)" by force
  with Cons.prems have 2: "apply_names rt desired nxt names fe1 s1 = (None, s')" by simp
  from Cons.IH [OF 2] Cons.prems have "fe1 = None" and rest: "\<forall>n \<in> set names. running s' n = Some (the (nxt n)) \<or>
      (\<exists>p. desired n = Some p \<and> containerEqual p (the (nxt n)) \<and> running s' n = running s1 n)" by auto
  have keep: "running s1 n = running s n" if "n \<in> set names" for n
    using one_frame [of n "the (nxt m)" "desired m" fe s] 1 that Cons.prems by auto
  have "running s' m = running s1 m"
    using names_frame [of names nxt m desired fe1 s1] 2 Cons.prems by simp
  with one_ok [of "desired m" "the (nxt m)" fe s s1] 1 \<open>fe1 = None\<close> rest keep Cons.prems
  show ?case by auto
qed simp

end

text \<open>The live containers are the desired ones, up to what does not call for a restart.\<close>

definition in_sync :: "(string \<rightharpoonup> WorkloadContainer) \<Rightarrow> (string \<rightharpoonup> WorkloadContainer) \<Rightarrow> bool" where
  "in_sync live desired \<longleftrightarrow> (\<forall>n. rel_option (\<lambda>c d. identity c = identity d) (live n) (desired n))"

definition envs_set :: "(string \<rightharpoonup> WorkloadContainer) \<Rightarrow> bool" where
  "envs_set m \<longleftrightarrow> (\<forall>c \<in> ran m. env_set c)"

lemma Apply_valid:
  "fst (ContainerSet_Validate cset) = None \<Longrightarrow> Apply rt ord cset r s =
     (let nxt = next_of (cs_Containers cset); (fe1, s1) = apply_drops rt nxt ord None s;
          (fe2, s2) = apply_names rt (rc_desired r) nxt (sort (remdups (map wc_Name (cs_Containers cset)))) fe1 s1
      in (fe2, r\<lparr>rc_desired := nxt\<rparr>, s2))"
  using ContainerSet_Validate_containers [of cset]
  by (cases "ContainerSet_Validate cset") (simp add: Apply_def Let_def split: prod.splits)

lemma Apply_invalid: "fst (ContainerSet_Validate cset) = Some e \<Longrightarrow> Apply rt ord cset r s = (Some (InvalidSet e), r, s)"
  by (cases "ContainerSet_Validate cset") (simp add: Apply_def)

lemma names_of_next: "\<forall>m \<in> set (sort (remdups (map wc_Name cs))). wc_Name (the (next_of cs m)) = m"
proof
  fix m
  assume "m \<in> set (sort (remdups (map wc_Name cs)))"
  then have "m \<in> dom (next_of cs)" by (simp add: next_of_dom)
  then obtain c where "next_of cs m = Some c" by blast
  with next_of_name [OF this] show "wc_Name (the (next_of cs m)) = m" by simp
qed

context runtime_contract
begin

lemma Apply_unmanaged:
  assumes "range_order (rc_desired r) ord" and "rc_desired r n = None" and "n \<notin> wc_Name ` set (cs_Containers cset)"
  shows "running (snd (snd (Apply rt ord cset r s))) n = running s n"
proof (cases "fst (ContainerSet_Validate cset)")
  case None
  let ?cs = "cs_Containers cset" and ?nxt = "next_of (cs_Containers cset)"
  obtain fe1 s1 where 1: "apply_drops rt ?nxt ord None s = (fe1, s1)" by force
  have "n \<notin> set ord" using assms by (auto simp: range_order_def)
  then have "running s1 n = running s n" using drops_frame [of ?nxt n ord None s] 1 by simp
  with names_frame [OF names_of_next [of ?cs], of n "rc_desired r" fe1 s1] 1 assms(3) show ?thesis
    by (auto simp: Apply_valid [OF None] Let_def split: prod.splits)
qed (simp add: Apply_invalid)

lemma names_skip:
  "desired n = Some p \<Longrightarrow> containerEqual p (the (nxt n)) \<Longrightarrow> \<forall>m \<in> set names. wc_Name (the (nxt m)) = m \<Longrightarrow>
     running (snd (apply_names rt desired nxt names fe s)) n = running s n"
proof (induction names arbitrary: fe s)
  case (Cons m names)
  obtain fe1 s1 where 1: "apply_one rt (desired m) (the (nxt m)) fe s = (fe1, s1)" by force
  have "running s1 n = running s n"
    using one_frame [of n "the (nxt m)" "desired m" fe s] 1 Cons.prems by (cases "m = n") (auto simp: apply_one_def)
  with 1 Cons show ?case by simp
qed simp

text \<open>A container whose description did not change is left alone, whatever fails.\<close>

lemma Apply_undisturbed:
  assumes "rc_desired r (wc_Name c) = Some p" and "containerEqual p c" and "c \<in> set (cs_Containers cset)"
  shows "running (snd (snd (Apply rt ord cset r s))) (wc_Name c) = running s (wc_Name c)"
proof (cases "fst (ContainerSet_Validate cset)")
  case None
  let ?cs = "cs_Containers cset" and ?nxt = "next_of (cs_Containers cset)"
  from None have nxt: "?nxt (wc_Name c) = Some c"
    using next_of_mem assms(3) by (simp add: ContainerSet_Validate_None)
  obtain fe1 s1 where 1: "apply_drops rt ?nxt ord None s = (fe1, s1)" by force
  have "running s1 (wc_Name c) = running s (wc_Name c)"
    using drops_frame [of ?nxt "wc_Name c" ord None s] 1 nxt by simp
  with names_skip [where nxt = ?nxt and desired = "rc_desired r" and n = "wc_Name c" and fe = fe1 and s = s1,
      OF assms(1) _ names_of_next] 1 assms(2) nxt show ?thesis
    by (auto simp: Apply_valid [OF None] Let_def split: prod.splits)
qed (simp add: Apply_invalid)

lemma Apply_ok:
  assumes "Apply rt ord cset r s = (None, r', s')" and "range_order (rc_desired r) ord"
  defines "nxt \<equiv> next_of (cs_Containers cset)"
  shows "rc_desired r' = nxt \<and> (\<forall>n.
    (nxt n = None \<and> rc_desired r n \<noteq> None \<longrightarrow> running s' n = None) \<and>
    (nxt n = None \<and> rc_desired r n = None \<longrightarrow> running s' n = running s n) \<and>
    (\<forall>c. nxt n = Some c \<longrightarrow> running s' n = Some c \<or>
      (\<exists>p. rc_desired r n = Some p \<and> containerEqual p c \<and> running s' n = running s n)))"
proof -
  from assms(1) have valid: "fst (ContainerSet_Validate cset) = None"
    by (cases "fst (ContainerSet_Validate cset)") (simp_all add: Apply_invalid)
  let ?cs = "cs_Containers cset" and ?names = "sort (remdups (map wc_Name (cs_Containers cset)))"
  obtain fe1 s1 where 1: "apply_drops rt nxt ord None s = (fe1, s1)" by force
  with assms(1) have 2: "apply_names rt (rc_desired r) nxt ?names fe1 s1 = (None, s')" and r': "rc_desired r' = nxt"
    by (auto simp: Apply_valid [OF valid] Let_def nxt_def split: prod.splits)
  note names = names_of_next [of ?cs, folded nxt_def]
  have set: "set ?names = dom nxt" by (simp add: nxt_def next_of_dom)
  from names_ok [OF 2 _ names, unfolded set] have fe1: "fe1 = None"
    and on: "\<forall>n \<in> dom nxt. running s' n = Some (the (nxt n)) \<or>
      (\<exists>p. rc_desired r n = Some p \<and> containerEqual p (the (nxt n)) \<and> running s' n = running s1 n)"
    by simp_all
  have out: "running s' n = running s1 n" if "nxt n = None" for n
    using names_frame [OF names, of n "rc_desired r" fe1 s1] 2 set that by (simp add: domIff)
  have keep: "running s1 n = running s n" if "nxt n \<noteq> None \<or> rc_desired r n = None" for n
    using drops_frame [of nxt n ord None s] 1 that assms(2) by (auto simp: range_order_def domIff)
  have gone: "running s1 n = None" if "nxt n = None" "rc_desired r n \<noteq> None" for n
    using drops_ok [of nxt ord None s s1] 1 fe1 that assms(2) by (auto simp: range_order_def domIff)
  show ?thesis
  proof (intro conjI allI impI r')
    fix n c
    assume "nxt n = Some c"
    then show "running s' n = Some c \<or>
        (\<exists>p. rc_desired r n = Some p \<and> containerEqual p c \<and> running s' n = running s n)"
      using on keep [of n] by (auto dest!: bspec [of _ _ n])
  qed (use out keep gone in auto)
qed

lemma Apply_in_sync:
  assumes "Apply rt ord cset r s = (None, r', s')" and "range_order (rc_desired r) ord"
    and "in_sync (running s) (rc_desired r)"
    and "envs_set (rc_desired r)" and "\<forall>c \<in> set (cs_Containers cset). env_set c"
  shows "in_sync (running s') (rc_desired r')"
  unfolding in_sync_def
proof
  fix n
  let ?nxt = "next_of (cs_Containers cset)"
  note ok = Apply_ok [OF assms(1,2)]
  show "rel_option (\<lambda>c d. identity c = identity d) (running s' n) (rc_desired r' n)"
  proof (cases "?nxt n")
    case None
    with ok assms(3) show ?thesis by (cases "rc_desired r n") (auto simp: in_sync_def dest: spec [of _ n])
  next
    case (Some c)
    with ok consider "running s' n = Some c"
      | p where "rc_desired r n = Some p" "containerEqual p c" "running s' n = running s n" by blast
    then show ?thesis
    proof cases
      case 1
      with ok Some show ?thesis by simp
    next
      case 2
      have "env_set p" using assms(4) 2(1) by (auto simp: envs_set_def intro: ranI)
      moreover have "env_set c" using assms(5) next_of_name [OF Some] by blast
      ultimately have "identity p = identity c" using containerEqual_identity 2(2) by (simp add: env_set_def)
      moreover have "rel_option (\<lambda>c d. identity c = identity d) (running s n) (rc_desired r n)"
        using assms(3) by (simp add: in_sync_def)
      ultimately show ?thesis using 2 ok Some by (auto elim!: option.rel_cases)
    qed
  qed
qed

end

section \<open>The stub honours the contract\<close>

interpretation stub: runtime_contract "Stub ord" sr_Started for ord
  by unfold_locales (auto simp: stub_defs)

lemma Stub_Apply_nil:
  assumes "fst (ContainerSet_Validate cset) = None"
  shows "fst (Apply (Stub ord') ord cset r s) = None"
proof -
  have drops: "fst (apply_drops (Stub ord') nxt ord None s) = None" for nxt ord s
    by (induction ord arbitrary: s) (auto simp: stub_defs record_error_def)
  have one: "fst (apply_one (Stub ord') prev want None s) = None" for prev want s
    by (auto simp: apply_one_def stub_defs record_error_def split: option.splits)
  have names: "fst (apply_names (Stub ord') des nxt ns None s) = None" for des nxt ns s
  proof (induction ns arbitrary: s)
    case (Cons n ns)
    with one [of "des n" "the (nxt n)" s] show ?case by (auto split: prod.splits)
  qed simp
  show ?thesis
    using drops [of "next_of (cs_Containers cset)" ord s] names [of "rc_desired r"]
    by (auto simp: Apply_valid [OF assms] Let_def split: prod.splits) (metis fst_conv)
qed

section \<open>Runs of the subscriber\<close>

text \<open>The subscription callback, once per message, in the order of delivery.  It acknowledges the
  message in any case, so a message is handled once.\<close>

inductive delivered :: "('s, 'e) Runtime \<Rightarrow> 's \<Rightarrow> string list \<Rightarrow> Reconciler \<Rightarrow> 's \<Rightarrow> bool"
  for rt :: "('s, 'e) Runtime" and s0 :: 's where
  delivered_start: "delivered rt s0 [] NewReconciler s0"
| delivered_message: "delivered rt s0 ms r s \<Longrightarrow> range_order (rc_desired r) ord \<Longrightarrow>
    HandleMessage rt ord m r s = (e, r', s') \<Longrightarrow> delivered rt s0 (ms @ [m]) r' s'"

inductive_cases delivered_snocE: "delivered rt s0 (ms @ [m]) r s"

text \<open>The sets a list of messages holds, without those that do not decode or do not validate.\<close>

definition accepted :: "string list \<Rightarrow> ContainerSet list" where
  "accepted ms = filter (\<lambda>c. fst (ContainerSet_Validate c) = None)
     (List.map_filter (Unmarshal dec_ContainerSet ContainerSet_zero) ms)"

definition wanted :: "string list \<Rightarrow> string \<rightharpoonup> WorkloadContainer" where
  "wanted ms = (if accepted ms = [] then Map.empty else next_of (cs_Containers (last (accepted ms))))"

lemma accepted_simps:
  "accepted [] = []"
  "accepted (ms @ [m]) = accepted ms @ (case Unmarshal dec_ContainerSet ContainerSet_zero m of
     None \<Rightarrow> [] | Some c \<Rightarrow> if fst (ContainerSet_Validate c) = None then [c] else [])"
  by (auto simp: accepted_def List.map_filter_def split: option.splits)

lemma delivered_desired: "delivered rt s0 ms r s \<Longrightarrow> rc_desired r = wanted ms"
proof (induction rule: delivered.induct)
  case delivered_start
  then show ?case by (simp add: NewReconciler_def wanted_def accepted_simps)
next
  case (delivered_message ms r s ord m e r' s')
  show ?case
  proof (cases "Unmarshal dec_ContainerSet ContainerSet_zero m")
    case None
    with delivered_message show ?thesis by (auto simp: HandleMessage_def wanted_def accepted_simps)
  next
    case (Some c)
    with delivered_message show ?thesis
      by (cases "fst (ContainerSet_Validate c)")
        (auto simp: HandleMessage_def wanted_def accepted_simps Apply_invalid Apply_valid Let_def split: prod.splits)
  qed
qed

lemma wanted_envs:
  assumes "\<forall>c \<in> set (accepted ms). \<forall>w \<in> set (cs_Containers c). env_set w"
  shows "envs_set (wanted ms)"
proof (cases "accepted ms = []")
  case False
  then have "last (accepted ms) \<in> set (accepted ms)" by simp
  with assms False show ?thesis
    by (auto simp: envs_set_def wanted_def ran_def dest!: next_of_name)
qed (simp add: wanted_def envs_set_def)

lemma stub_delivered_sync:
  assumes "delivered (Stub ord') NewStubRuntime ms r s"
    and "\<forall>c \<in> set (accepted ms). \<forall>w \<in> set (cs_Containers c). env_set w"
  shows "in_sync (sr_Started s) (rc_desired r)"
  using assms
proof (induction rule: delivered.induct)
  case delivered_start
  then show ?case by (simp add: in_sync_def NewReconciler_def NewStubRuntime_def)
next
  case (delivered_message ms r s ord m e r' s')
  then have IH: "in_sync (sr_Started s) (rc_desired r)"
    and envs: "envs_set (rc_desired r)"
    by (auto simp: accepted_simps delivered_desired [OF delivered_message.hyps(1)] intro: wanted_envs)
  show ?case
  proof (cases "Unmarshal dec_ContainerSet ContainerSet_zero m")
    case None
    with delivered_message IH show ?thesis by (auto simp: HandleMessage_def)
  next
    case (Some c)
    with delivered_message.hyps have ap: "Apply (Stub ord') ord c r s = (e, r', s')" by (simp add: HandleMessage_def)
    show ?thesis
    proof (cases "fst (ContainerSet_Validate c)")
      case None
      with Stub_Apply_nil [OF None, of ord' ord r s] ap have "e = None" by simp
      moreover have "\<forall>w \<in> set (cs_Containers c). env_set w"
        using delivered_message.prems Some None by (simp add: accepted_simps)
      ultimately show ?thesis
        using stub.Apply_in_sync [of ord' ord c r s r' s'] ap delivered_message.hyps(2) IH envs by simp
    next
      case (Some err)
      with ap IH show ?thesis by (simp add: Apply_invalid)
    qed
  qed
qed

section \<open>Properties\<close>


definition demo_container :: WorkloadContainer where
  "demo_container = WorkloadContainer_zero\<lparr>wc_Name := ''web'', wc_Image := ''nginx'', wc_Env := [(''A'', ''1'')]\<rparr>"

definition demo_set :: ContainerSet where
  "demo_set = \<lparr>cs_Version = 1, cs_Containers = [demo_container]\<rparr>"

lemma demo_valid: "fst (ContainerSet_Validate demo_set) = None"
  by (simp add: ContainerSet_Validate_None demo_set_def demo_container_def WorkloadContainer_zero_def container_ok_def)

lemma demo_envs: "\<forall>c \<in> set (cs_Containers demo_set). env_set c"
  by (simp add: demo_set_def demo_container_def env_set_def)



definition demo_message :: string where
  "demo_message = json_print (enc_ContainerSet demo_set)"

lemma demo_accepted: "accepted [''{'', demo_message] = [demo_set]"
  by code_simp


text \<open>C26: A container whose description a new set repeats is not touched, even when other steps of the
  same \<open>Apply\<close> fail.\<close>

theorem unchanged_container_undisturbed:
  assumes "runtime_contract rt running" and "rc_desired r (wc_Name c) = Some p"
    and "containerEqual p c" and "c \<in> set (cs_Containers cset)"
  shows "running (snd (snd (Apply rt ord cset r s))) (wc_Name c) = running s (wc_Name c)"
  by (rule runtime_contract.Apply_undisturbed [OF assms])

theorem unchanged_container_undisturbed_witness:
  "sr_Started (snd (snd (Apply (Stub []) [''web''] demo_set \<lparr>rc_desired = [''web'' \<mapsto> demo_container]\<rparr> NewStubRuntime))) ''web''
     = None"
  using unchanged_container_undisturbed [OF stub.runtime_contract_axioms, of
      "\<lparr>rc_desired = [''web'' \<mapsto> demo_container]\<rparr>" demo_container demo_container demo_set "[]" "[''web'']" NewStubRuntime]
  by (simp add: demo_set_def demo_container_def NewStubRuntime_def)

text \<open>Applying the same valid set again makes no call to the runtime and returns nil.  This holds
  after an \<open>Apply\<close> that failed, too: a failed pull or start is not tried again by a re-publish.\<close>

theorem Apply_again_is_noop:
  assumes "fst (ContainerSet_Validate cset) = None" and "Apply rt ord cset r s = (e, r', s')"
    and "range_order (rc_desired r') ord'"
  shows "Apply rt ord' cset r' s' = (None, r', s')"
proof -
  let ?nxt = "next_of (cs_Containers cset)"
  have r': "rc_desired r' = ?nxt"
    using assms(2) by (auto simp: Apply_valid [OF assms(1)] Let_def split: prod.splits)
  have drops: "apply_drops rt ?nxt ks fe t = (fe, t)" if "set ks \<subseteq> dom ?nxt" for ks fe t
    using that by (induction ks) auto
  have names: "apply_names rt ?nxt ?nxt ks fe t = (fe, t)" if "set ks \<subseteq> dom ?nxt" for ks fe t
    using that by (induction ks) (auto simp: apply_one_def)
  from assms(3) r' show ?thesis
    by (simp add: Apply_valid [OF assms(1)] Let_def drops names range_order_def next_of_dom)
qed

definition broken_start :: "(StubRuntime, unit) Runtime" where
  "broken_start = (Stub [])\<lparr>rt_Start := \<lambda>c s. (Some (), s)\<rparr>"

theorem Apply_again_is_noop_witness:
  "\<exists>r' s'. Apply broken_start [] demo_set NewReconciler NewStubRuntime = (Some (RuntimeError ()), r', s') \<and>
     Apply broken_start [''web''] demo_set r' s' = (None, r', s') \<and> sr_Started s' = Map.empty"
proof -
  have first: "Apply broken_start [] demo_set NewReconciler NewStubRuntime =
      (Some (RuntimeError ()), \<lparr>rc_desired = [''web'' \<mapsto> demo_container]\<rparr>, NewStubRuntime\<lparr>sr_Pulled := {''nginx''}\<rparr>)"
    unfolding Apply_valid [OF demo_valid]
    by (simp add: demo_set_def next_of_def apply_one_def broken_start_def stub_defs
        demo_container_def WorkloadContainer_zero_def record_error_def NewReconciler_def)
  from Apply_again_is_noop [OF demo_valid first, of "[''web'']"] first show ?thesis
    by (simp add: range_order_def NewStubRuntime_def)
qed

text \<open>C29: \<open>containerEqual\<close> decides equality of everything that calls for a restart, provided no
  environment variable is set to the empty string; without that proviso it takes
  \<open>{X: ""}\<close> and \<open>{Y: v}\<close> for equal, in one direction only.\<close>

theorem containerEqual_correct:
  "(env_set a \<and> env_set b \<longrightarrow> (containerEqual a b \<longleftrightarrow> identity a = identity b)) \<and>
   (v \<noteq> [] \<longrightarrow> containerEqual (a\<lparr>wc_Env := [(''X'', [])]\<rparr>) (a\<lparr>wc_Env := [(''Y'', v)]\<rparr>) \<and>
     \<not> containerEqual (a\<lparr>wc_Env := [(''Y'', v)]\<rparr>) (a\<lparr>wc_Env := [(''X'', [])]\<rparr>))"
  using containerEqual_identity [of a b] by (auto simp: env_set_def containerEqual_def go_get_def)

theorem containerEqual_correct_witness:
  "(containerEqual demo_container (demo_container\<lparr>wc_Restart := ''never''\<rparr>) \<longleftrightarrow>
     identity demo_container = identity (demo_container\<lparr>wc_Restart := ''never''\<rparr>)) \<and>
   containerEqual (demo_container\<lparr>wc_Env := [(''X'', [])]\<rparr>) (demo_container\<lparr>wc_Env := [(''Y'', ''1'')]\<rparr>)"
  using containerEqual_correct [of demo_container "demo_container\<lparr>wc_Restart := ''never''\<rparr>" "''1''"]
  by (simp add: env_set_def demo_container_def)

end
