(* ===== verification/Subscriber.thy ===== *)
theory Subscriber
  imports Weft_Prelude
begin

text \<open>
  The pattern the packages \<open>mesh\<close>, \<open>mounts\<close>, \<open>firewall\<close>, \<open>sshkeys\<close> and \<open>properties\<close> share: decode a
  message, validate it, hand it to an injected \<open>ApplyFunc\<close>.  The locale \<open>message_handler\<close> is the contract
  of such a handler and \<open>replace_set\<close> that of one whose messages carry whole states.  Each
  package's \<open>HandleMessage\<close> interprets them in its own theory.
\<close>

datatype ('v, 'a) handle_error = Undecodable | Invalid 'v | ApplyFailed 'a

text \<open>A subscription calls the handler once per message, in order; errors are logged and dropped.\<close>

fun deliver :: "(string \<Rightarrow> 's \<Rightarrow> 'e err \<times> 's) \<Rightarrow> string list \<Rightarrow> 's \<Rightarrow> 's" where
  "deliver handle [] s = s"
| "deliver handle (m # ms) s = deliver handle ms (snd (handle m s))"

lemma deliver_append [simp]: "deliver handle (ms @ ns) s = deliver handle ns (deliver handle ms s)"
  by (induction ms arbitrary: s) auto

text \<open>The messages a handler gets as far as applying.\<close>

definition good :: "(string \<Rightarrow> 'm option) \<Rightarrow> ('m \<Rightarrow> 'v err) \<Rightarrow> string \<Rightarrow> bool" where
  "good decode validate d \<longleftrightarrow> (case decode d of None \<Rightarrow> False | Some m \<Rightarrow> validate m = None)"

text \<open>The updates of a run of messages that decode and validate.\<close>

definition passed :: "(string \<Rightarrow> 'm option) \<Rightarrow> ('m \<Rightarrow> 'v err) \<Rightarrow> string list \<Rightarrow> 'm list" where
  "passed decode validate ms = map (\<lambda>d. the (decode d)) (filter (good decode validate) ms)"

lemma passed_valid: "m \<in> set (passed decode validate ms) \<Longrightarrow> validate m = None"
  by (auto simp: passed_def good_def split: option.splits)

lemma passed_simps [simp]:
  "passed decode validate [] = []"
  "passed decode validate (d # ms) =
     (if good decode validate d then [the (decode d)] else []) @ passed decode validate ms"
  by (simp_all add: passed_def)

locale message_handler =
  fixes handle :: "string \<Rightarrow> 's \<Rightarrow> ('v, 'a) handle_error err \<times> 's"
    and decode :: "string \<Rightarrow> 'm option" and validate :: "'m \<Rightarrow> 'v err"
    and apply_fn :: "'m \<Rightarrow> 's \<Rightarrow> 'a err \<times> 's"
  assumes handle_undecodable: "decode d = None \<Longrightarrow> handle d s = (Some Undecodable, s)"
    and handle_invalid: "decode d = Some m \<Longrightarrow> validate m = Some e \<Longrightarrow> handle d s = (Some (Invalid e), s)"
    and handle_valid: "decode d = Some m \<Longrightarrow> validate m = None \<Longrightarrow>
      handle d s = (map_option ApplyFailed (fst (apply_fn m s)), snd (apply_fn m s))"
begin

lemma bad_unchanged: "\<not> good decode validate d \<Longrightarrow> snd (handle d s) = s \<and> fst (handle d s) \<noteq> None"
  by (cases "decode d")
    (auto simp: good_def handle_undecodable handle_invalid dest: handle_invalid split: option.splits)

lemma deliver_good: "deliver handle ms s = deliver handle (filter (good decode validate) ms) s"
  by (induction ms arbitrary: s) (auto simp: bad_unchanged)

lemma good_applied: "good decode validate d \<Longrightarrow> snd (handle d s) = snd (apply_fn (the (decode d)) s)"
  by (auto simp: good_def handle_valid split: option.splits)

lemma deliver_passed:
  "deliver handle ms s = fold (\<lambda>m s. snd (apply_fn m s)) (passed decode validate ms) s"
  by (induction ms arbitrary: s) (auto simp: bad_unchanged good_applied)

end

text \<open>Handlers of whole states: a successful apply makes the \<open>view\<close> of the state what the message
  says, whatever it was before.\<close>

locale replace_set = message_handler +
  fixes view :: "'s \<Rightarrow> 'b" and target :: "'m \<Rightarrow> 'b"
  assumes apply_target: "validate m = None \<Longrightarrow> fst (apply_fn m s) = None \<Longrightarrow> view (snd (apply_fn m s)) = target m"
begin

lemma handled_target:
  "decode d = Some m \<Longrightarrow> fst (handle d s) = None \<Longrightarrow> view (snd (handle d s)) = target m"
  by (cases "validate m") (auto simp: handle_invalid handle_valid intro: apply_target)

lemma last_good_wins:
  assumes "decode d = Some m" and "fst (handle d (deliver handle ms s)) = None"
    and "\<forall>d' \<in> set ns. \<not> good decode validate d'"
  shows "view (deliver handle (ms @ [d] @ ns) s) = target m"
proof -
  have "filter (good decode validate) ns = []" using assms(3) by auto
  then have "deliver handle ns t = t" for t using deliver_good [of ns t] by simp
  with handled_target [OF assms(1,2)] show ?thesis by simp
qed

end

end
