(* ===== verification/Go_Path.thy ===== *)
theory Go_Path
  imports Go_FS
begin

text \<open>
  What the string operations of \<open>path/filepath\<close> mean to the file system: how \<open>Clean\<close>, \<open>Dir\<close>,
  \<open>Join\<close> and a suffix like \<^verbatim>\<open>.tmp\<close> act on the components of a path; and the write-temporary,
  rename pattern the agent uses for every file it replaces.
\<close>

section \<open>Splitting and joining\<close>

lemma Split_no_char: "c \<notin> set s \<Longrightarrow> Split s c = [s]"
  by (induction s) auto

lemma Split_append: "Split (a @ c # b) c = Split a c @ Split b c"
proof (induction a)
  case (Cons x a)
  then show ?case by (cases "Split a c") (auto split: list.splits)
qed simp

lemma Split_suffix:
  assumes "c \<notin> set t"
  shows "Split (s @ t) c = butlast (Split s c) @ [last (Split s c) @ t]"
proof (induction s)
  case Nil
  then show ?case using Split_no_char [OF assms] by simp
next
  case (Cons x s)
  obtain y ys where "Split s c = y # ys" by (meson Split_nonempty neq_Nil_conv)
  with Cons show ?case by (cases ys) auto
qed

lemma Split_Join:
  "cs \<noteq> [] \<Longrightarrow> \<forall>x \<in> set cs. c \<notin> set x \<Longrightarrow> Split (Join cs [c]) c = cs"
proof (induction cs "[c]" rule: Join.induct)
  case (3 s t ss)
  then show ?case using Split_append [of s c "Join (t # ss) [c]"] Split_no_char [of c s] by simp
qed (simp_all add: Split_no_char)

section \<open>Cleaning\<close>

definition proper :: "string \<Rightarrow> bool" where
  "proper c \<longleftrightarrow> c \<noteq> [] \<and> c \<noteq> ''.'' \<and> c \<noteq> ''..''"

lemma clean_loop_append:
  assumes "\<forall>x \<in> set ds. proper x"
  shows "clean_loop r acc (cs @ ds) = clean_loop r acc cs @ ds"
proof (induction cs arbitrary: acc)
  case Nil
  show ?case using assms by (induction ds arbitrary: acc) (auto simp: proper_def)
next
  case (Cons c cs)
  then show ?case by (cases acc) simp_all
qed

lemma clean_loop_proper: "\<forall>x \<in> set ds. proper x \<Longrightarrow> clean_loop r [] ds = ds"
  using clean_loop_append [of ds r "[]" "[]"] by simp

lemma clean_loop_snoc_empty [simp]: "clean_loop r acc (cs @ [[]]) = clean_loop r acc cs"
proof (induction cs arbitrary: acc)
  case (Cons c cs)
  then show ?case by (cases acc) simp_all
qed simp

lemma clean_loop_result:
  assumes "\<forall>x \<in> set acc. proper x" and "x \<in> set (clean_loop True acc cs)"
  shows "proper x \<and> x \<in> set acc \<union> set cs"
  using assms
proof (induction cs arbitrary: acc)
  case (Cons c cs)
  show ?case
  proof (cases "proper c")
    case True
    then have "clean_loop True acc (c # cs) = clean_loop True (c # acc) cs" by (simp add: proper_def)
    with Cons.IH [of "c # acc"] Cons.prems True show ?thesis by auto
  next
    case False
    have "clean_loop True acc (c # cs) = clean_loop True acc cs \<or> clean_loop True acc (c # cs) = clean_loop True (tl acc) cs"
      using False Cons.prems(1) by (cases acc) (auto simp: proper_def)
    then show ?thesis
      using Cons.IH [of acc] Cons.IH [of "tl acc"] Cons.prems by (cases acc) auto
  qed
qed auto

lemma kpath_Inr:
  "kpath name = Inr p \<longleftrightarrow> name \<noteq> [] \<and> NUL \<notin> set name \<and> p = clean_loop True [] (Split name CHR ''/'')"
  by (auto simp: kpath_def)

text \<open>The components of a path are names, without a slash.\<close>

lemma kpath_proper:
  assumes "kpath name = Inr p" and "x \<in> set p"
  shows "proper x" and "CHR ''/'' \<notin> set x"
  using assms clean_loop_result [of "[]" x "Split name CHR ''/''"] Split_no_sep [of name "CHR ''/''"]
  by (auto simp: kpath_Inr)

lemma Split_rooted:
  assumes "\<forall>x \<in> set cs. CHR ''/'' \<notin> set x"
  shows "clean_loop True [] (Split (CHR ''/'' # Join cs ''/'') CHR ''/'') = clean_loop True [] cs"
  using assms Split_Join [of cs "CHR ''/''"] by (cases "cs = []") auto

lemma set_Join: "set (Join cs sep) \<subseteq> \<Union> (set ` set cs) \<union> set sep"
  by (induction cs sep rule: Join.induct) auto

lemma set_Split: "x \<in> set (Split s c) \<Longrightarrow> set x \<subseteq> set s"
proof (induction s arbitrary: x)
  case (Cons y s)
  obtain z zs where split: "Split s c = z # zs" by (meson Split_nonempty neq_Nil_conv)
  with Cons.IH have "set w \<subseteq> set s" if "w = z \<or> w \<in> set zs" for w using that by auto
  with Cons.prems split show ?case by (fastforce split: if_splits)
qed simp

lemma kpath_Clean:
  assumes "HasPrefix s ''/''" and "NUL \<notin> set s"
  shows "kpath (Clean s) = kpath s"
proof -
  let ?cs = "clean_loop True [] (Split s CHR ''/'')"
  have clean: "Clean s = CHR ''/'' # Join ?cs ''/''" using assms(1) by (simp add: Clean_def Let_def)
  have mem: "\<forall>x \<in> set ?cs. proper x \<and> x \<in> set (Split s CHR ''/'')"
    using clean_loop_result [of "[]" _ "Split s CHR ''/''"] by auto
  then have noslash: "\<forall>x \<in> set ?cs. CHR ''/'' \<notin> set x" using Split_no_sep by blast
  have "NUL \<notin> set (Join ?cs ''/'')"
    using set_Join [of ?cs "''/''"] mem set_Split [of _ s "CHR ''/''"] assms(2) by fastforce
  moreover have "clean_loop True [] (Split (Clean s) CHR ''/'') = ?cs"
    unfolding clean Split_rooted [OF noslash] by (rule clean_loop_proper) (use mem in blast)
  ultimately show ?thesis using assms by (auto simp: kpath_def clean HasPrefix_def)
qed

section \<open>A file and its directory\<close>

text \<open>An absolute path whose last component is a name: what every path flag of the agent holds.\<close>

definition abs_file :: "string \<Rightarrow> bool" where
  "abs_file name \<longleftrightarrow> HasPrefix name ''/'' \<and> NUL \<notin> set name \<and> proper (last (Split name CHR ''/''))"

definition file_dir :: "string \<Rightarrow> path" where
  "file_dir name = clean_loop True [] (butlast (Split name CHR ''/''))"

definition file_base :: "string \<Rightarrow> string" where
  "file_base name = last (Split name CHR ''/'')"

lemma kpath_file: "abs_file name \<Longrightarrow> kpath name = Inr (file_dir name @ [file_base name])"
proof -
  assume f: "abs_file name"
  have "Split name CHR ''/'' = butlast (Split name CHR ''/'') @ [file_base name]"
    by (simp add: file_base_def)
  then have "clean_loop True [] (Split name CHR ''/'') = file_dir name @ [file_base name]"
    using clean_loop_append [of "[file_base name]" True "[]" "butlast (Split name CHR ''/'')"] f
    by (simp add: file_dir_def abs_file_def file_base_def)
  with f show ?thesis by (auto simp: kpath_def abs_file_def HasPrefix_def)
qed

lemma abs_file_suffix:
  assumes "abs_file name" and "CHR ''/'' \<notin> set t" and "NUL \<notin> set t" and "2 < length t"
  shows "abs_file (name @ t)" and "file_dir (name @ t) = file_dir name" and "file_base (name @ t) = file_base name @ t"
proof -
  note split = Split_suffix [OF assms(2), of name]
  then show "file_dir (name @ t) = file_dir name" and "file_base (name @ t) = file_base name @ t"
    by (simp_all add: file_dir_def file_base_def)
  have "HasPrefix (name @ t) ''/''" using assms(1) by (auto simp: abs_file_def HasPrefix_iff)
  moreover have "2 < length (last (Split name CHR ''/'') @ t)" using assms(4) by simp
  then have "proper (last (Split name CHR ''/'') @ t)" unfolding proper_def by fastforce
  ultimately show "abs_file (name @ t)" using assms split by (simp add: abs_file_def)
qed

lemma dir_prefix:
  assumes "CHR ''/'' \<in> set s"
  shows "Split (rev (dropWhile (\<lambda>c. c \<noteq> CHR ''/'') (rev s))) CHR ''/'' = butlast (Split s CHR ''/'') @ [[]]"
proof -
  from assms obtain a b where s: "s = a @ CHR ''/'' # b" and b: "CHR ''/'' \<notin> set b"
    by (meson split_list_last)
  have "dropWhile (\<lambda>c. c \<noteq> CHR ''/'') (rev s) = CHR ''/'' # rev a"
    using b dropWhile_append2 [of "rev b" "\<lambda>c. c \<noteq> CHR ''/''" "CHR ''/'' # rev a"] by (auto simp: s)
  moreover have "Split (a @ [CHR ''/'']) CHR ''/'' = Split a CHR ''/'' @ [[]]"
    using Split_append [of a "CHR ''/''" "[]"] by simp
  ultimately show ?thesis using Split_append [of a "CHR ''/''" b] Split_no_char [OF b]
    by (simp add: s butlast_append)
qed

lemma kpath_Dir:
  assumes "abs_file name"
  shows "kpath (filepath_Dir name) = Inr (file_dir name)"
proof -
  let ?d = "rev (dropWhile (\<lambda>c. c \<noteq> CHR ''/'') (rev name))"
  obtain t where name: "name = CHR ''/'' # t"
    using assms by (auto simp: abs_file_def HasPrefix_iff)
  have "CHR ''/'' \<in> set name" using name by simp
  note split = dir_prefix [OF this]
  obtain u where d: "?d = CHR ''/'' # u"
  proof (cases "CHR ''/'' \<in> set t")
    case True
    then have "dropWhile (\<lambda>c. c \<noteq> CHR ''/'') (rev t @ [CHR ''/'']) = dropWhile (\<lambda>c. c \<noteq> CHR ''/'') (rev t) @ [CHR ''/'']"
      by (intro dropWhile_append1) auto
    then show ?thesis using that name by simp
  next
    case False
    then have "dropWhile (\<lambda>c. c \<noteq> CHR ''/'') (rev t @ [CHR ''/'']) = [CHR ''/'']"
      by (subst dropWhile_append2) auto
    then show ?thesis using that name by simp
  qed
  have "NUL \<notin> set ?d" using assms by (auto simp: abs_file_def dest: set_dropWhileD)
  then have "kpath (filepath_Dir name) = kpath ?d"
    unfolding filepath_Dir_def by (intro kpath_Clean) (use d in \<open>simp_all add: HasPrefix_def\<close>)
  also have "\<dots> = Inr (file_dir name)"
    using \<open>NUL \<notin> set ?d\<close> d split by (simp add: kpath_def file_dir_def)
  finally show ?thesis .
qed

section \<open>Replacing a file\<close>

abbreviation mode_0700 :: u32 where
  "mode_0700 \<equiv> 448"

abbreviation mode_0755 :: u32 where
  "mode_0755 \<equiv> 493"

abbreviation mode_0600 :: u32 where
  "mode_0600 \<equiv> 384"

abbreviation mode_0644 :: u32 where
  "mode_0644 \<equiv> 420"

text \<open>The steps before the rename leave the target alone, at every moment and whatever fails.\<close>

lemma keep_MkdirAll:
  assumes "kpath name = Inr d" and "length d < length p" and "lookup s p = v"
  shows "evolves (\<lambda>m. m p = v) s (snd (os_MkdirAll name perm s))"
  by (rule evolves_MkdirAll) (use assms in auto)

lemma keep_WriteFile:
  assumes "kpath name = Inr q" and "q \<noteq> p" and "lookup s p = v"
  shows "evolves (\<lambda>m. m p = v) s (snd (os_WriteFile name data perm s))"
  by (rule evolves_WriteFile) (use assms in auto)

lemma keep_Chown:
  assumes "kpath name = Inr q" and "q \<noteq> p" and "lookup s p = v"
  shows "evolves (\<lambda>m. m p = v) s (snd (os_Chown name u g s))"
  by (rule evolves_Chown) (use assms in auto)

lemma keep_Remove:
  assumes "kpath name = Inr q" and "q \<noteq> p" and "lookup s p = v"
  shows "evolves (\<lambda>m. m p = v) s (snd (os_Remove name s))"
  by (rule evolves_Remove) (use assms in auto)

lemmas keep_target = keep_MkdirAll keep_WriteFile keep_Chown keep_Remove

text \<open>The rename puts the temporary file in place of the target in one step.\<close>

lemma commit_Rename:
  assumes "kpath old = Inr q" and "kpath new = Inr p" and "q \<noteq> p"
    and "lookup s p = v" and "lookup s q = w"
  shows "evolves (\<lambda>m. m p = v \<or> m p = w) s (snd (os_Rename old new s))"
  by (rule evolves_Rename) (use assms in auto)

lemma Chown_lookup:
  assumes "kpath name = Inr q"
  shows "lookup (snd (os_Chown name u g s)) q = lookup s q \<or>
    (\<exists>n. lookup s q = Some n \<and> lookup (snd (os_Chown name u g s)) q = Some (chown_node u g n))"
  using assms by (auto simp: os_Chown_def dest!: resolve_Inr split: option.splits sum.splits)

lemma Chown_Reg:
  assumes "kpath name = Inr q" and "lookup s q = Some (Reg a c)"
  shows "\<exists>a'. lookup (snd (os_Chown name u g s)) q = Some (Reg a' c) \<and> a_mode a' = a_mode a"
  using Chown_lookup [OF assms(1), of u g s] assms(2) by (auto simp: chown_node_def)

text \<open>The owner is changed only when both ids are set.\<close>

definition chown_if :: "string \<Rightarrow> int \<Rightarrow> int \<Rightarrow> os \<Rightarrow> os" where
  "chown_if name uid gid s = (if 0 \<le> uid \<and> 0 \<le> gid then snd (os_Chown name uid gid s) else s)"

lemma keep_chown_if:
  assumes "kpath name = Inr q" and "q \<noteq> p" and "lookup s p = v"
  shows "evolves (\<lambda>m. m p = v) s (chown_if name uid gid s)"
  using keep_Chown [OF assms] by (simp add: chown_if_def evolves_refl assms(3))

lemma chown_if_Reg:
  assumes "kpath name = Inr q" and "lookup s q = Some (Reg a c)"
  shows "\<exists>a'. lookup (chown_if name uid gid s) q = Some (Reg a' c) \<and> a_mode a' = a_mode a"
  using Chown_Reg [OF assms] assms(2) by (simp add: chown_if_def)

text \<open>The paths of a file that is replaced through a temporary one beside it.\<close>

definition target_file :: "string \<Rightarrow> path" where
  "target_file name = file_dir name @ [file_base name]"

definition tmp_file :: "string \<Rightarrow> path" where
  "tmp_file name = file_dir name @ [file_base name @ ''.tmp'']"

lemma file_paths:
  assumes "abs_file name"
  shows "kpath name = Inr (target_file name)" and "kpath (name @ ''.tmp'') = Inr (tmp_file name)"
    and "kpath (filepath_Dir name) = Inr (file_dir name)" and "tmp_file name \<noteq> target_file name"
    and "file_dir name \<noteq> target_file name" and "file_dir name \<noteq> tmp_file name"
    and "length (file_dir name) < length (target_file name)"
    and "length (file_dir name) < length (tmp_file name)"
  using kpath_file [OF assms] kpath_Dir [OF assms] kpath_file [OF abs_file_suffix(1) [OF assms, of "''.tmp''"]]
    abs_file_suffix(2,3) [OF assms, of "''.tmp''"]
  by (simp_all add: target_file_def tmp_file_def)

text \<open>The tail every replacement shares: write the temporary file, give it away, rename it, and remove
  it when the rename failed.  Up to the rename the target keeps its entry; the rename puts the new
  content there, or fails and changes nothing.\<close>

lemma replace_tail:
  fixes s :: os and data :: string
  assumes f: "abs_file name"
    and 2: "os_WriteFile (name @ ''.tmp'') data perm s = (r2, s2)"
    and 3: "os_Rename (name @ ''.tmp'') name (chown_if (name @ ''.tmp'') uid gid s2) = (r3, s3)"
  defines "p \<equiv> target_file name"
  defines "ok \<equiv> \<lambda>m. m p = lookup s p \<or> (\<exists>a. m p = Some (Reg a data))"
  shows "evolves ok s s2 \<and> lookup s2 p = lookup s p"
    and "r3 \<noteq> None \<Longrightarrow> evolves ok s (snd (os_Remove (name @ ''.tmp'') s3)) \<and>
      lookup (snd (os_Remove (name @ ''.tmp'') s3)) p = lookup s p"
    and "r2 = None \<Longrightarrow> r3 = None \<Longrightarrow> evolves ok s s3 \<and> (\<exists>a. lookup s3 p = Some (Reg a data))"
proof -
  note paths = file_paths [OF f, folded p_def]
  let ?K = "\<lambda>m. m p = lookup s p" and ?tmp = "name @ ''.tmp''"
  have mono: "evolves ok t t'" if "evolves ?K t t'" for t t' using that by (rule evolves_mono) (simp add: ok_def)
  have k2: "evolves ?K s s2" using keep_WriteFile [OF paths(2) paths(4) refl, of s data perm] 2 by simp
  then show "evolves ok s s2 \<and> lookup s2 p = lookup s p" using mono evolvesD [OF k2] by blast
  let ?c2 = "chown_if ?tmp uid gid s2"
  have c2: "evolves ?K s ?c2"
    using evolves_trans [OF k2 keep_chown_if [OF paths(2) paths(4) evolvesD [OF k2]]] .
  show "evolves ok s (snd (os_Remove ?tmp s3)) \<and> lookup (snd (os_Remove ?tmp s3)) p = lookup s p" if "r3 \<noteq> None"
  proof -
    have "evolves ?K ?c2 s3" using 3 that evolvesD [OF c2]
      by (auto simp: os_Rename_def Let_def intro!: evolves_tick split: option.splits sum.splits if_splits)
    with c2 have k3: "evolves ?K s s3" by (rule evolves_trans)
    have "evolves ?K s (snd (os_Remove ?tmp s3))"
      using evolves_trans [OF k3 keep_Remove [OF paths(2) paths(4) evolvesD [OF k3]]] .
    with mono evolvesD [OF this] show ?thesis by blast
  qed
  show "evolves ok s s3 \<and> (\<exists>a. lookup s3 p = Some (Reg a data))" if r2: "r2 = None" and r3: "r3 = None"
  proof -
    obtain a where "lookup s2 (tmp_file name) = Some (Reg a data)"
      using WriteFile_ok(1) [OF 2 [unfolded r2] paths(2)] by auto
    then obtain a' where a': "lookup ?c2 (tmp_file name) = Some (Reg a' data)"
      using chown_if_Reg [OF paths(2)] by blast
    have "evolves (\<lambda>m. m p = lookup s p \<or> m p = Some (Reg a' data)) ?c2 s3"
      using commit_Rename [OF paths(2) paths(1) paths(4) evolvesD [OF c2] a'] 3 by simp
    then have "evolves ok ?c2 s3" by (rule evolves_mono) (auto simp: ok_def)
    moreover have "lookup s3 p = Some (Reg a' data)"
      using Rename_ok [OF 3 [unfolded r3] paths(2) paths(1) paths(4)] a' paths(4) by auto
    ultimately show ?thesis using evolves_trans [OF mono [OF c2]] by blast
  qed
qed

section \<open>Without faults\<close>

text \<open>On a well-formed tree and without faults from outside, the calls succeed whenever the entries
  they meet have the right kind.  \<open>healthy\<close> is kept by each of them.\<close>

definition healthy :: "os \<Rightarrow> bool" where
  "healthy s \<longleftrightarrow> calm s \<and> wf_map (lookup s)"

definition dir_at :: "os \<Rightarrow> path \<Rightarrow> bool" where
  "dir_at s p \<longleftrightarrow> (\<exists>n. lookup s p = Some n \<and> is_dir n)"

definition file_slot :: "os \<Rightarrow> path \<Rightarrow> bool" where
  "file_slot s p \<longleftrightarrow> p \<noteq> [] \<and> (lookup s p = None \<or> (\<exists>a c. lookup s p = Some (Reg a c)))"

lemma wf_del:
  assumes "wf_map m" and "p \<noteq> []" and "\<And>c. m (p @ [c]) = None"
  shows "wf_map (m(p := None))"
  unfolding wf_map_def
proof (intro conjI allI impI)
  show "\<exists>n. (m(p := None)) [] = Some n \<and> is_dir n" using wf_root [OF assms(1)] assms(2) by auto
next
  fix q c
  assume "(m(p := None)) (q @ [c]) \<noteq> None"
  then obtain n where "m (q @ [c]) = Some n" by (auto split: if_splits)
  with wf_parent [OF assms(1) this] assms(3) show "\<exists>n. (m(p := None)) q = Some n \<and> is_dir n" by auto
qed

lemma healthy_leaf:
  assumes "wf_map m" and "m p = Some n" and "\<not> is_dir n"
  shows "m (p @ [c]) = None"
  using wf_parent [OF assms(1), of p c] assms(2,3) by (cases "m (p @ [c])") auto

lemma healthy_tick [simp]: "healthy (tick s) = healthy s"
  by (simp add: healthy_def)

lemma healthy_mkdir:
  assumes "healthy s" and "p = [] \<or> dir_at s (butlast p)" and "lookup s p = None"
  shows "os_Mkdir p perm s = (None, put p (Directory (new_attr perm s)) (tick s)) \<and>
    healthy (put p (Directory (new_attr perm s)) (tick s))"
proof -
  have "p \<noteq> []" using assms(1,3) by (auto simp: healthy_def dest: wf_root)
  with assms have par: "\<exists>n. lookup s (butlast p) = Some n \<and> is_dir n" by (simp add: dir_at_def)
  then have "parent_error p s = None" using assms(1) wf_parent_error_None by (auto simp: healthy_def)
  moreover have "wf_map ((lookup s)(p \<mapsto> Directory (new_attr perm s)))"
    by (rule wf_update) (use assms(1) par in \<open>auto simp: healthy_def\<close>)
  ultimately show ?thesis using assms by (simp add: os_Mkdir_def healthy_def)
qed

lemma healthy_stat:
  assumes "healthy s"
  shows "stat_path p s = (walk (lookup s) [] p, tick s)"
    and "walk (lookup s) [] p = Inr n \<longleftrightarrow> lookup s p = Some n"
  using assms by (simp_all add: stat_path_def healthy_def walk_Inr_iff)

text \<open>\<open>MkdirAll\<close> succeeds when no file is in the way, and adds only the missing directories.\<close>

definition no_file_on :: "path \<Rightarrow> os \<Rightarrow> bool" where
  "no_file_on d s \<longleftrightarrow> (\<forall>i \<le> length d. \<forall>n. lookup s (take i d) = Some n \<longrightarrow> is_dir n)"

definition adds_dirs :: "path \<Rightarrow> os \<Rightarrow> os \<Rightarrow> bool" where
  "adds_dirs d s s' \<longleftrightarrow> healthy s' \<and> same_env s s' \<and>
     (\<forall>q. lookup s' q = lookup s q \<or> (lookup s q = None \<and> dir_at s' q \<and> take (length q) d = q))"

lemma adds_dirs_trans: "adds_dirs d s s1 \<Longrightarrow> adds_dirs d s1 s2 \<Longrightarrow> adds_dirs d s s2"
  unfolding adds_dirs_def
proof (intro conjI allI)
  fix q
  assume 1: "healthy s1 \<and> same_env s s1 \<and>
      (\<forall>q. lookup s1 q = lookup s q \<or> (lookup s q = None \<and> dir_at s1 q \<and> take (length q) d = q))"
    and 2: "healthy s2 \<and> same_env s1 s2 \<and>
      (\<forall>q. lookup s2 q = lookup s1 q \<or> (lookup s1 q = None \<and> dir_at s2 q \<and> take (length q) d = q))"
  from 1 2 have q: "lookup s1 q = lookup s q \<or> (lookup s q = None \<and> dir_at s1 q \<and> take (length q) d = q)"
    "lookup s2 q = lookup s1 q \<or> (lookup s1 q = None \<and> dir_at s2 q \<and> take (length q) d = q)" by blast+
  then show "lookup s2 q = lookup s q \<or> (lookup s q = None \<and> dir_at s2 q \<and> take (length q) d = q)"
    by (auto simp: dir_at_def)
  from 1 2 show "same_env s s2" by (blast intro: same_env_trans)
  from 2 show "healthy s2" by blast
qed

lemma prefix_snoc: "take (length q) d = q \<Longrightarrow> take (length q) (d @ [c]) = q"
proof -
  assume q: "take (length q) d = q"
  then have "length q \<le> length d" by (metis length_take min.cobounded1)
  with q show ?thesis by simp
qed

lemma adds_dirs_snoc: "adds_dirs d s s' \<Longrightarrow> adds_dirs (d @ [c]) s s'"
  unfolding adds_dirs_def by (elim conjE, intro conjI allI) (auto simp del: take_append intro: prefix_snoc)

lemma adds_dirs_outside: "adds_dirs d s s' \<Longrightarrow> length d < length q \<Longrightarrow> lookup s' q = lookup s q"
proof -
  assume "adds_dirs d s s'" and len: "length d < length q"
  moreover have "take (length q) d \<noteq> q" using len by (metis length_take min.strict_order_iff not_less_iff_gr_or_eq)
  ultimately show ?thesis by (auto simp: adds_dirs_def)
qed

lemma no_file_on_butlast: "no_file_on (d @ [c]) s \<Longrightarrow> no_file_on d s"
  unfolding no_file_on_def
proof (intro allI impI)
  fix i n
  assume all: "\<forall>i\<le>length (d @ [c]). \<forall>n. lookup s (take i (d @ [c])) = Some n \<longrightarrow> is_dir n"
    and "i \<le> length d" "lookup s (take i d) = Some n"
  with all [rule_format, of i n] show "is_dir n" by simp
qed

lemma mkdir_all_healthy:
  assumes "healthy s" and "no_file_on (rev rp) s"
  shows "\<exists>s'. mkdir_all rp perm s = (None, s') \<and> adds_dirs (rev rp) s s' \<and> dir_at s' (rev rp)"
  using assms
proof (induction rp arbitrary: s)
  case Nil
  from Nil.prems(1) obtain n where n: "lookup s [] = Some n" "is_dir n" by (auto simp: healthy_def dest: wf_root)
  with Nil.prems(1) show ?case
    by (simp add: healthy_stat adds_dirs_def dir_at_def same_env_def)
next
  case (Cons c rp)
  let ?p = "rev rp @ [c]"
  show ?case
  proof (cases "lookup s ?p")
    case (Some n)
    with Cons.prems(2) have "is_dir n" by (auto simp: no_file_on_def dest: spec [of _ "length ?p"])
    with Some Cons.prems(1) healthy_stat(2) [OF Cons.prems(1), of ?p n] show ?thesis
      by (simp add: healthy_stat(1) adds_dirs_def dir_at_def same_env_def)
  next
    case None
    have stat: "\<exists>e. stat_path ?p s = (Inl e, tick s)"
      using healthy_stat [OF Cons.prems(1), of ?p] None by (cases "walk (lookup s) [] ?p") auto
    obtain s1 where s1: "(if rp = [] then (None, tick s) else mkdir_all rp perm (tick s)) = (None, s1)"
      and add1: "adds_dirs (rev rp) s s1" and dir1: "dir_at s1 (rev rp)"
    proof (cases "rp = []")
      case True
      from Cons.prems(1) obtain n where "lookup s [] = Some n" "is_dir n" by (auto simp: healthy_def dest: wf_root)
      with True Cons.prems(1) show ?thesis
        by (intro that [of "tick s"]) (auto simp: adds_dirs_def dir_at_def same_env_def)
    next
      case False
      have "no_file_on (rev rp) (tick s)"
        using Cons.prems(2) no_file_on_butlast [of "rev rp" c s] by (simp add: no_file_on_def)
      from Cons.IH [OF _ this] Cons.prems(1) obtain s' where "mkdir_all rp perm (tick s) = (None, s')"
        and "adds_dirs (rev rp) (tick s) s'" and "dir_at s' (rev rp)" by auto
      with False show ?thesis by (intro that [of s']) (simp_all add: adds_dirs_def same_env_def)
    qed
    have healthy1: "healthy s1" using add1 by (simp add: adds_dirs_def)
    have miss: "lookup s1 ?p = None" using adds_dirs_outside [OF add1, of ?p] None by simp
    note mk = healthy_mkdir [OF healthy1 _ miss, of perm]
    let ?s2 = "put ?p (Directory (new_attr perm s1)) (tick s1)"
    from mk dir1 have "mkdir_or_stat ?p perm s1 = (None, ?s2)" and h2: "healthy ?s2"
      by (simp_all add: mkdir_or_stat_def)
    have "adds_dirs ?p s1 ?s2"
      using h2 miss by (auto simp: adds_dirs_def same_env_def dir_at_def)
    moreover have "adds_dirs ?p s s1" using add1 by (rule adds_dirs_snoc)
    ultimately have "adds_dirs ?p s ?s2" by (blast intro: adds_dirs_trans)
    moreover have "dir_at ?s2 ?p" by (simp add: dir_at_def)
    moreover obtain e where "stat_path ?p s = (Inl e, tick s)" using stat by blast
    with s1 \<open>mkdir_or_stat ?p perm s1 = (None, ?s2)\<close> have "mkdir_all (c # rp) perm s = (None, ?s2)" by simp
    ultimately show ?thesis by auto
  qed
qed

lemma MkdirAll_healthy:
  assumes "healthy s" and "kpath name = Inr d" and "no_file_on d s"
  shows "\<exists>s'. os_MkdirAll name perm s = (None, s') \<and> adds_dirs d s s' \<and> dir_at s' d"
  unfolding os_MkdirAll_def assms(2) sum.case
  using mkdir_all_healthy [of s "rev d" perm, unfolded rev_rev_ident, OF assms(1,3)] .

lemma WriteFile_healthy:
  assumes "healthy s" and "kpath name = Inr p" and "file_slot s p" and "dir_at s (butlast p)"
  shows "\<exists>a s'. os_WriteFile name data perm s = (None, s') \<and> lookup s' = (lookup s)(p \<mapsto> Reg a data) \<and>
    healthy s' \<and> same_env s s'"
proof -
  obtain n where n: "lookup s (butlast p) = Some n" "is_dir n" using assms(4) by (auto simp: dir_at_def)
  then have par: "parent_error p s = None" using assms(1) by (simp add: healthy_def wf_parent_error_None)
  have wf: "wf_map ((lookup s)(p \<mapsto> Reg a data))" for a
    by (rule wf_update) (use assms n in \<open>auto simp: healthy_def file_slot_def\<close>)
  have nf: "fault_of s = None" and nw: "\<And>i. faults s i = NoFault" and calm: "calm s"
    using assms(1) by (simp_all add: healthy_def calm_def)
  obtain a where a: "open_trunc p perm s = (Inr a, put p (Reg a []) (tick s))"
    using assms(3) nf par by (auto simp: open_trunc_def file_slot_def)
  let ?s' = "put p (Reg a data) (tick (put p (Reg a []) (tick s)))"
  have "os_WriteFile name data perm s = (None, ?s')"
    by (simp add: os_WriteFile_def assms(2) a write_data_def nw)
  moreover have "lookup ?s' = (lookup s)(p \<mapsto> Reg a data)" by simp
  moreover from this wf calm have "healthy ?s'" by (simp only: healthy_def calm_simps)
  moreover have "same_env s ?s'" by (simp add: same_env_def)
  ultimately show ?thesis by blast
qed

lemma Rename_healthy:
  assumes "healthy s" and "kpath old = Inr q" and "kpath new = Inr p" and "q \<noteq> p" and "q \<noteq> []"
    and "lookup s q = Some (Reg a c)" and "file_slot s p" and "dir_at s (butlast p)" and "butlast p \<noteq> q"
  shows "\<exists>s'. os_Rename old new s = (None, s') \<and> lookup s' = (lookup s)(p \<mapsto> Reg a c, q := None) \<and>
    healthy s' \<and> same_env s s'"
proof -
  have wf: "wf_map (lookup s)" and fo: "fault_of s = None" using assms(1) by (simp_all add: healthy_def)
  obtain n where n: "lookup s (butlast p) = Some n" "is_dir n" using assms(8) by (auto simp: dir_at_def)
  then have par: "parent_error p s = None" using wf by (simp add: wf_parent_error_None)
  have wf1: "wf_map ((lookup s)(p \<mapsto> Reg a c))"
    by (rule wf_update) (use assms wf n in \<open>auto simp: file_slot_def\<close>)
  have "q @ [x] \<noteq> p" for x using assms(9) by auto
  then have wf2: "wf_map ((lookup s)(p \<mapsto> Reg a c, q := None))"
    by (intro wf_del wf1 assms(5)) (simp add: healthy_leaf [OF wf assms(6)])
  have res: "resolve old s = Inr (q, Reg a c)" by (rule wf_resolve [OF wf assms(2,6)])
  have slot: "(case lookup s p of Some n' \<Rightarrow> is_dir n' | None \<Rightarrow> False) = False"
    using assms(7) by (auto simp: file_slot_def)
  show ?thesis
    using assms(1) fo par res slot assms(3,4) wf2
    by (simp add: os_Rename_def Let_def healthy_def calm_def same_env_def lookup_rename)
qed

lemma Chown_healthy:
  assumes "healthy s"
  shows "healthy (snd (os_Chown name u g s))" and "same_env s (snd (os_Chown name u g s))"
proof -
  have wf: "wf_map ((lookup s)(p \<mapsto> chown_node u g n))" if "lookup s p = Some n" for p n
  proof (rule wf_update)
    show "\<exists>n'. lookup s (butlast p) = Some n' \<and> is_dir n'" if "p \<noteq> []"
      using wf_parent [of "lookup s" "butlast p" "last p" n] \<open>lookup s p = Some n\<close> assms that
      by (simp add: healthy_def)
    show "is_dir (chown_node u g n) \<or> (p \<noteq> [] \<and> (lookup s p = None \<or> (\<exists>n0. lookup s p = Some n0 \<and> \<not> is_dir n0)))"
      using that assms by (cases "p = []") (auto simp: healthy_def dest: wf_root)
  qed (use assms in \<open>simp add: healthy_def\<close>)
  show "same_env s (snd (os_Chown name u g s))"
    by (simp add: os_Chown_def same_env_def split: option.splits sum.splits)
  have "calm s" and "healthy s" using assms by (simp_all add: healthy_def)
  then show "healthy (snd (os_Chown name u g s))"
    by (cases "resolve name s") (auto simp: os_Chown_def healthy_def wf dest!: resolve_Inr)
qed

lemma chown_if_healthy:
  assumes "healthy s"
  shows "healthy (chown_if name u g s)" and "same_env s (chown_if name u g s)"
  using Chown_healthy [OF assms] assms by (simp_all add: chown_if_def)

lemma chown_if_other: "kpath name = Inr q \<Longrightarrow> p \<noteq> q \<Longrightarrow> lookup (chown_if name u g s) p = lookup s p"
  using evolvesD [OF keep_chown_if [of name q p s "lookup s p" u g]] by auto

lemma chown_if_dir: "kpath name = Inr q \<Longrightarrow> dir_at s q \<Longrightarrow> dir_at (chown_if name u g s) q"
  using Chown_lookup [of name q u g s] by (auto simp: chown_if_def dir_at_def)

section \<open>Rooted paths and their components\<close>

text \<open>The name of a list of components, and of the temporary file beside it.\<close>

definition path_string :: "path \<Rightarrow> string" where
  "path_string cs = CHR ''/'' # Join cs ''/''"

definition tmp_path :: "path \<Rightarrow> path" where
  "tmp_path cs = (if cs = [] then [''.tmp''] else butlast cs @ [last cs @ ''.tmp''])"

text \<open>What the kernel accepts as the name of an entry.\<close>

definition entry_name :: "string \<Rightarrow> bool" where
  "entry_name c \<longleftrightarrow> proper c \<and> CHR ''/'' \<notin> set c \<and> NUL \<notin> set c"

definition names_ok :: "path \<Rightarrow> bool" where
  "names_ok cs \<longleftrightarrow> (\<forall>c \<in> set cs. entry_name c)"

lemma names_ok_simps [simp]:
  "names_ok []" "names_ok (c # cs) \<longleftrightarrow> entry_name c \<and> names_ok cs"
  "names_ok (cs @ ds) \<longleftrightarrow> names_ok cs \<and> names_ok ds"
  by (auto simp: names_ok_def)

lemma names_ok_filter: "names_ok cs \<Longrightarrow> names_ok (filter P cs)"
  by (auto simp: names_ok_def)

lemma kpath_names_ok: "kpath name = Inr p \<Longrightarrow> names_ok p"
proof -
  assume k: "kpath name = Inr p"
  then have "NUL \<notin> set name" and p: "p = clean_loop True [] (Split name CHR ''/'')" by (auto simp: kpath_Inr)
  then have "NUL \<notin> set x" if "x \<in> set p" for x
    using that clean_loop_result [of "[]" x "Split name CHR ''/''"] set_Split [of x name "CHR ''/''"] by auto
  with kpath_proper [OF k] show ?thesis by (auto simp: names_ok_def entry_name_def)
qed

lemma Join_set: "names_ok cs \<Longrightarrow> NUL \<notin> set (Join cs ''/'')"
  using set_Join [of cs "''/''"] by (auto simp: names_ok_def entry_name_def)

lemma kpath_path_string: "names_ok cs \<Longrightarrow> kpath (path_string cs) = Inr cs"
  using Split_rooted [of cs] clean_loop_proper [of cs True] Join_set [of cs]
  by (auto simp: kpath_Inr path_string_def names_ok_def entry_name_def)

lemma path_string_inject: "names_ok cs \<Longrightarrow> names_ok ds \<Longrightarrow> path_string cs = path_string ds \<longleftrightarrow> cs = ds"
  by (metis kpath_path_string sum.inject(2))

lemma clean_loop_plain:
  "''..'' \<notin> set cs \<Longrightarrow> clean_loop r acc cs = rev acc @ filter (\<lambda>c. c \<noteq> [] \<and> c \<noteq> ''.'') cs"
  by (induction cs arbitrary: acc) auto

lemma clean_loop_prefix:
  "clean_loop True acc (cs @ ds) = clean_loop True (rev (clean_loop True acc cs)) ds"
proof (induction cs arbitrary: acc)
  case (Cons c cs)
  then show ?case by (cases acc) simp_all
qed simp

text \<open>\<open>filepath.Join\<close> of a rooted path and a name that does not step up.\<close>

definition key_path :: "string \<Rightarrow> path" where
  "key_path k = filter (\<lambda>c. c \<noteq> [] \<and> c \<noteq> ''.'') (Split k CHR ''/'')"

lemma no_dotdot: "\<not> Contains k ''..'' \<Longrightarrow> ''..'' \<notin> set (Split k CHR ''/'')"
proof
  assume "''..'' \<in> set (Split k CHR ''/'')" and k: "\<not> Contains k ''..''"
  then obtain xs ys where "Split k CHR ''/'' = xs @ ''..'' # ys" by (meson split_list)
  then have "Join (xs @ ''..'' # ys) ''/'' = k" by (metis Join_Split)
  moreover have "Contains (Join (xs @ ''..'' # ys) ''/'') ''..''"
  proof (induction xs)
    case Nil
    show ?case by (cases ys) (simp_all add: HasPrefix_def)
  next
    case (Cons x xs)
    have "Contains (a @ b) w" if "Contains b w" for a b w :: string
      using that by (auto simp: Contains_iff) (metis append.assoc)
    moreover have "Join ((x # xs) @ ''..'' # ys) ''/'' = (x @ ''/'') @ Join (xs @ ''..'' # ys) ''/''"
      by (cases xs) auto
    ultimately show ?case using Cons by metis
  qed
  ultimately show False using k by simp
qed

lemma key_path_names:
  assumes "\<not> Contains k ''..''" and "NUL \<notin> set k"
  shows "names_ok (key_path k)"
  using no_dotdot [OF assms(1)] Split_no_sep [of k "CHR ''/''"] set_Split [of _ k "CHR ''/''"] assms(2)
  by (auto simp: names_ok_def entry_name_def proper_def key_path_def)

lemma filepath_Join_key:
  assumes "HasPrefix root ''/''" and "kpath root = Inr r" and "k \<noteq> []" and "\<not> Contains k ''..''"
  shows "filepath_Join [root, k] = path_string (r @ key_path k)"
proof -
  let ?body = "clean_loop True [] (Split (root @ CHR ''/'' # k) CHR ''/'')"
  from assms(2) have r: "root \<noteq> []" "r = clean_loop True [] (Split root CHR ''/'')" by (auto simp: kpath_Inr)
  have "?body = clean_loop True (rev r) (Split k CHR ''/'')"
    unfolding Split_append clean_loop_prefix r(2) ..
  also have "\<dots> = r @ key_path k"
    using clean_loop_plain [OF no_dotdot [OF assms(4)], of True "rev r"] by (simp add: key_path_def)
  finally have body: "?body = r @ key_path k" .
  have "HasPrefix (root @ CHR ''/'' # k) ''/''" using assms(1) by (auto simp: HasPrefix_iff)
  with body r(1) assms(3) show ?thesis
    by (simp add: filepath_Join_def Clean_def path_string_def)
qed

lemma key_path_entry: "entry_name c \<Longrightarrow> key_path c = [c]"
  by (simp add: key_path_def Split_no_char entry_name_def proper_def)

lemma filepath_Join_entry:
  assumes "HasPrefix d ''/''" and "kpath d = Inr cs" and "entry_name c"
  shows "filepath_Join [d, c] = path_string (cs @ [c])"
proof -
  have d: "d \<noteq> []" "clean_loop True [] (Split d CHR ''/'') = cs" using assms(2) by (simp_all add: kpath_Inr)
  have "clean_loop True [] (Split (d @ CHR ''/'' # c) CHR ''/'') = cs @ [c]"
    using assms(3) by (simp add: Split_append clean_loop_prefix d(2) Split_no_char entry_name_def proper_def)
  moreover have "HasPrefix (d @ CHR ''/'' # c) ''/''" using assms(1) by (auto simp: HasPrefix_iff)
  ultimately show ?thesis using assms(3) d(1)
    by (simp add: filepath_Join_def Clean_def path_string_def entry_name_def proper_def)
qed

lemma path_string_rooted [simp]: "HasPrefix (path_string cs) ''/''"
  by (simp add: path_string_def HasPrefix_def)

lemma last_Split_path_string:
  assumes "names_ok cs" and "cs \<noteq> []"
  shows "Split (path_string cs) CHR ''/'' = [] # cs"
  using assms Split_Join [of cs "CHR ''/''"] by (simp add: path_string_def names_ok_def entry_name_def)

lemma abs_file_path_string: "names_ok cs \<Longrightarrow> cs \<noteq> [] \<Longrightarrow> abs_file (path_string cs)"
  using last_Split_path_string [of cs] Join_set [of cs] last_in_set [of cs]
  by (auto simp: abs_file_def HasPrefix_def path_string_def names_ok_def entry_name_def)

lemma file_dir_path_string:
  assumes "names_ok cs" and "cs \<noteq> []"
  shows "file_dir (path_string cs) = butlast cs" and "file_base (path_string cs) = last cs"
proof -
  have "\<forall>x \<in> set (butlast cs). proper x" using assms by (auto simp: names_ok_def entry_name_def dest: in_set_butlastD)
  with last_Split_path_string [OF assms] assms(2)
  show "file_dir (path_string cs) = butlast cs" and "file_base (path_string cs) = last cs"
    by (simp_all add: file_dir_def file_base_def clean_loop_proper)
qed

lemma path_string_paths:
  assumes "names_ok cs"
  shows "kpath (path_string cs @ ''.tmp'') = Inr (tmp_path cs)"
    and "kpath (filepath_Dir (path_string cs)) = Inr (butlast cs)"
proof -
  show "kpath (path_string cs @ ''.tmp'') = Inr (tmp_path cs)"
  proof (cases "cs = []")
    case True
    have "kpath ''/.tmp'' = Inr [''.tmp'']" by code_simp
    with True show ?thesis by (simp add: path_string_def tmp_path_def)
  next
    case False
    with file_paths(2) [OF abs_file_path_string] file_dir_path_string assms
    show ?thesis by (simp add: tmp_file_def tmp_path_def)
  qed
  show "kpath (filepath_Dir (path_string cs)) = Inr (butlast cs)"
  proof (cases "cs = []")
    case True
    have "kpath (filepath_Dir ''/'') = Inr []" by code_simp
    with True show ?thesis by (simp add: path_string_def)
  next
    case False
    with file_paths(3) [OF abs_file_path_string] file_dir_path_string assms show ?thesis by simp
  qed
qed

lemma tmp_path_append: "q \<noteq> [] \<Longrightarrow> tmp_path (r @ q) = r @ tmp_path q"
  by (simp add: tmp_path_def butlast_append)

lemma tmp_path_names: "names_ok cs \<Longrightarrow> names_ok (tmp_path cs)"
  using kpath_names_ok [OF path_string_paths(1)] .

lemma tmp_path_neq: "tmp_path cs \<noteq> cs"
  by (cases cs rule: rev_cases) (simp_all add: tmp_path_def)

section \<open>Listing a directory\<close>

lemma children_iff: "c \<in> set (children p t) \<longleftrightarrow> map_of t (p @ [c]) \<noteq> None"
proof -
  have "c \<in> set (children p t) \<longleftrightarrow> (\<exists>q \<in> fst ` set t. q \<noteq> [] \<and> butlast q = p \<and> last q = c)"
    by (auto simp: children_def)
  also have "\<dots> \<longleftrightarrow> (\<exists>q \<in> fst ` set t. q = p @ [c])"
    by (rule bex_cong [OF refl]) (metis append_butlast_last_id butlast_snoc last_snoc snoc_eq_iff_butlast)
  also have "\<dots> \<longleftrightarrow> p @ [c] \<in> fst ` set t" by (rule bex_triv_one_point1)
  finally show ?thesis by (simp add: map_of_eq_None_iff)
qed

lemma children_Nil_iff: "children p t = [] \<longleftrightarrow> (\<forall>c. map_of t (p @ [c]) = None)"
  unfolding set_empty [symmetric] set_eq_iff children_iff by simp

lemma ReadDir_Inr:
  assumes "os_ReadDir name s = (Inr es, s')" and "kpath name = Inr p"
  shows "es = map (\<lambda>c. (c, the (lookup s (p @ [c])))) (children p (os_tree s))" and "s' = tick s"
    and "\<exists>n. lookup s p = Some n \<and> is_dir n"
  using assms by (auto simp: os_ReadDir_def dest!: resolve_Inr split: option.splits sum.splits if_splits)

lemma ReadDir_snd: "snd (os_ReadDir name s) = tick s"
  by (simp add: os_ReadDir_def split: option.splits sum.splits prod.splits)

lemma ReadDir_entry:
  assumes "os_ReadDir name s = (Inr es, s')" and "kpath name = Inr p"
  shows "(c, n) \<in> set es \<longleftrightarrow> lookup s (p @ [c]) = Some n"
  unfolding ReadDir_Inr(1) [OF assms] using children_iff [of c p "os_tree s"] by auto

section \<open>An example\<close>

text \<open>Well-formedness of a tree, as a test.\<close>

definition dir_entry :: "tree \<Rightarrow> path \<Rightarrow> bool" where
  "dir_entry t p = (case map_of t p of Some n \<Rightarrow> is_dir n | None \<Rightarrow> False)"

definition wf_tree :: "tree \<Rightarrow> bool" where
  "wf_tree t \<longleftrightarrow> dir_entry t [] \<and> (\<forall>(p, n) \<in> set t. p = [] \<or> dir_entry t (butlast p))"

lemma wf_tree_wf_map: "wf_tree t \<Longrightarrow> wf_map (map_of t)"
  unfolding wf_tree_def wf_map_def
proof (intro conjI allI impI)
  assume t: "dir_entry t [] \<and> (\<forall>(p, n) \<in> set t. p = [] \<or> dir_entry t (butlast p))"
  then show "\<exists>n. map_of t [] = Some n \<and> is_dir n" by (auto simp: dir_entry_def split: option.splits)
  fix p c
  assume "map_of t (p @ [c]) \<noteq> None"
  then obtain n where "(p @ [c], n) \<in> set t" by (auto dest: map_of_SomeD)
  with t have "dir_entry t p" by fastforce
  then show "\<exists>n. map_of t p = Some n \<and> is_dir n" by (auto simp: dir_entry_def split: option.splits)
qed

definition root_attr :: attr where
  "root_attr = \<lparr>a_mode = mode_0755, a_uid = 0, a_gid = 0\<rparr>"

definition os_demo :: os where
  "os_demo = \<lparr>os_tree = [([], Directory root_attr), ([''root''], Directory root_attr)], umask = 18, euid = 0,
     egid = 0, faults = (\<lambda>_. NoFault), clock = 0, history = []\<rparr>"

lemma os_demo_healthy: "healthy os_demo"
proof -
  have "lookup os_demo = [[] \<mapsto> Directory root_attr, [''root''] \<mapsto> Directory root_attr]"
    by (auto simp: os_demo_def)
  then show ?thesis
    by (auto simp: healthy_def calm_def wf_map_def os_demo_def append_eq_Cons_conv split: if_splits)
qed

end
