(* ===== verification/Sshkeys.thy ===== *)
theory Sshkeys
  imports Subscriber Go_Json Go_Path
begin

text \<open>
  Package \<open>sshkeys\<close> and its \<open>ApplyFunc\<close> \<open>sshKeysApplyer\<close>: the key set the host publishes, and the
  rewrite of the user's \<^verbatim>\<open>authorized_keys\<close>.  The theorems say that the file is replaced in one step,
  at every moment and under every fault, and that a published set, the empty one included, becomes
  the content of the file.
\<close>

section \<open>Model\<close>

record Key =
  key_PublicKey :: string

record KeySet =
  ks_Keys :: "Key list"

datatype keys_invalid = TooFewFields nat string | BadAlgorithm nat string

datatype keys_error = MkdirDir errno | WriteTmp errno | RenameTmp errno

definition sshkeys_Subject :: "string \<Rightarrow> string" where
  "sshkeys_Subject vmID = ''weft.sshkeys.'' @ vmID"

definition dec_Key :: "Key into" where
  "dec_Key = dec_struct [''public_key'']
     (\<lambda>n j r. map_option (\<lambda>v. r\<lparr>key_PublicKey := v\<rparr>) (dec_string j (key_PublicKey r)))"

definition dec_KeySet :: "KeySet into" where
  "dec_KeySet = dec_struct [''keys'']
     (\<lambda>n j r. map_option (\<lambda>v. r\<lparr>ks_Keys := v\<rparr>) (dec_list dec_Key \<lparr>key_PublicKey = []\<rparr> j (ks_Keys r)))"

definition decode_KeySet :: "string \<Rightarrow> KeySet option" where
  "decode_KeySet = Unmarshal dec_KeySet \<lparr>ks_Keys = []\<rparr>"

definition key_algorithms :: "string list" where
  "key_algorithms = [''ssh-rsa'', ''ssh-ed25519'', ''ssh-dss'', ''ecdsa-sha2-nistp256'', ''ecdsa-sha2-nistp384'',
     ''ecdsa-sha2-nistp521'']"

fun validate_keys :: "nat \<Rightarrow> Key list \<Rightarrow> keys_invalid err" where
  "validate_keys i [] = None"
| "validate_keys i (k # ks) =
     (let parts = Fields (key_PublicKey k) in
      if length parts < 2 then Some (TooFewFields i (key_PublicKey k))
      else if hd parts \<in> set key_algorithms then validate_keys (Suc i) ks
      else Some (BadAlgorithm i (hd parts)))"

definition KeySet_Validate :: "KeySet \<Rightarrow> keys_invalid err" where
  "KeySet_Validate s = validate_keys 0 (ks_Keys s)"

definition sshkeys_HandleMessage :: "(KeySet \<Rightarrow> 's \<Rightarrow> 'a err \<times> 's) \<Rightarrow> string \<Rightarrow> 's \<Rightarrow>
    (keys_invalid, 'a) handle_error err \<times> 's" where
  "sshkeys_HandleMessage apply_fn data s = (case decode_KeySet data of
       None \<Rightarrow> (Some Undecodable, s)
     | Some ks \<Rightarrow> (case KeySet_Validate ks of
         Some e \<Rightarrow> (Some (Invalid e), s)
       | None \<Rightarrow> (case apply_fn ks s of (e, s') \<Rightarrow> (map_option ApplyFailed e, s'))))"

definition keys_header :: string where
  "keys_header = ''# Managed by weft-microvm-agent. Edits are overwritten on next push.'' @ [LF]"

definition render_keys :: "KeySet \<Rightarrow> string" where
  "render_keys ks = keys_header @ concat (map (\<lambda>k. key_PublicKey k @ [LF]) (ks_Keys ks))"

definition sshKeysApplyer :: "string \<Rightarrow> int \<Rightarrow> int \<Rightarrow> KeySet \<Rightarrow> os \<Rightarrow> keys_error err \<times> os" where
  "sshKeysApplyer authorizedKeysPath uid gid ks s =
     (let dir = filepath_Dir authorizedKeysPath; tmp = authorizedKeysPath @ ''.tmp'' in
      case os_MkdirAll dir mode_0700 s of
        (Some e, s1) \<Rightarrow> (Some (MkdirDir e), s1)
      | (None, s1) \<Rightarrow> (case os_WriteFile tmp (render_keys ks) mode_0600 (chown_if dir uid gid s1) of
          (Some e, s2) \<Rightarrow> (Some (WriteTmp e), s2)
        | (None, s2) \<Rightarrow> (case os_Rename tmp authorizedKeysPath (chown_if tmp uid gid s2) of
            (Some e, s3) \<Rightarrow> (Some (RenameTmp e), snd (os_Remove tmp s3))
          | (None, s3) \<Rightarrow> (None, s3))))"

definition lenAfterDecode :: "string \<Rightarrow> int" where
  "lenAfterDecode data = (case decode_KeySet data of None \<Rightarrow> - 1 | Some ks \<Rightarrow> int (length (ks_Keys ks)))"

section \<open>Lemmas\<close>

lemma KeySet_Validate_None:
  "KeySet_Validate s = None \<longleftrightarrow> (\<forall>k \<in> set (ks_Keys s). 2 \<le> length (Fields (key_PublicKey k)) \<and>
     hd (Fields (key_PublicKey k)) \<in> set key_algorithms)"
proof -
  have "validate_keys i ks = None \<longleftrightarrow> (\<forall>k \<in> set ks. 2 \<le> length (Fields (key_PublicKey k)) \<and>
      hd (Fields (key_PublicKey k)) \<in> set key_algorithms)" for i ks
    by (induction ks arbitrary: i) (auto simp: Let_def)
  then show ?thesis by (simp add: KeySet_Validate_def)
qed

text \<open>Everything one run of the applyer does, for every fault: up to the rename the target keeps its
  old entry, the rename puts the rendered set there or fails and changes nothing.\<close>

lemma applyer_run:
  fixes s :: os and ks :: KeySet
  assumes f: "abs_file name"
  defines "p \<equiv> target_file name"
  defines "ok \<equiv> \<lambda>m. m p = lookup s p \<or> (\<exists>a. m p = Some (Reg a (render_keys ks)))"
  shows "evolves ok s (snd (sshKeysApplyer name uid gid ks s)) \<and>
    (if fst (sshKeysApplyer name uid gid ks s) = None
     then \<exists>a. lookup (snd (sshKeysApplyer name uid gid ks s)) p = Some (Reg a (render_keys ks))
     else lookup (snd (sshKeysApplyer name uid gid ks s)) p = lookup s p)"
proof -
  note paths = file_paths [OF f, folded p_def]
  let ?K = "\<lambda>m. m p = lookup s p" and ?tmp = "name @ ''.tmp''"
  have mono: "evolves ok t t'" if "evolves ?K t t'" for t t' using that by (rule evolves_mono) (simp add: ok_def)
  obtain r1 s1 where 1: "os_MkdirAll (filepath_Dir name) mode_0700 s = (r1, s1)" by force
  have k1: "evolves ?K s s1" using keep_MkdirAll [OF paths(3) paths(7) refl, of s mode_0700] 1 by simp
  let ?c1 = "chown_if (filepath_Dir name) uid gid s1"
  have c1: "evolves ?K s ?c1"
    using evolves_trans [OF k1 keep_chown_if [OF paths(3) paths(5) evolvesD [OF k1]]] .
  obtain r2 s2 where 2: "os_WriteFile ?tmp (render_keys ks) mode_0600 ?c1 = (r2, s2)" by force
  obtain r3 s3 where 3: "os_Rename ?tmp name (chown_if ?tmp uid gid s2) = (r3, s3)" by force
  note tail = replace_tail [OF f 2 3, folded p_def, unfolded evolvesD [OF c1], folded ok_def]
  show ?thesis
    using 1 2 3 tail evolvesD [OF k1] mono [OF k1] evolves_trans [OF mono [OF c1]]
    by (cases r1; cases r2; cases r3) (simp_all add: sshKeysApplyer_def Let_def)
qed

lemma applyer_mode:
  assumes f: "abs_file name" and fresh: "lookup s (tmp_file name) = None"
    and run: "sshKeysApplyer name uid gid ks s = (None, s')"
  shows "\<exists>a. lookup s' (target_file name) = Some (Reg a (render_keys ks)) \<and> a_mode a = and mode_0600 (not (umask s))"
proof -
  note paths = file_paths [OF f]
  let ?Q = "\<lambda>m. m (tmp_file name) = None" and ?tmp = "name @ ''.tmp''"
  from run obtain s1 s2 where 1: "os_MkdirAll (filepath_Dir name) mode_0700 s = (None, s1)"
    and 2: "os_WriteFile ?tmp (render_keys ks) mode_0600 (chown_if (filepath_Dir name) uid gid s1) = (None, s2)"
    and 3: "os_Rename ?tmp name (chown_if ?tmp uid gid s2) = (None, s')"
    by (auto simp: sshKeysApplyer_def Let_def split: prod.splits option.splits)
  let ?c1 = "chown_if (filepath_Dir name) uid gid s1"
  have k1: "evolves ?Q s s1" using keep_MkdirAll [OF paths(3) paths(8) fresh, of mode_0700] 1 by simp
  have c1: "evolves ?Q s ?c1"
    using evolves_trans [OF k1 keep_chown_if [OF paths(3) paths(6) evolvesD [OF k1]]] .
  have um: "umask ?c1 = umask s" using evolves_env [OF c1] by (simp add: same_env_def)
  from WriteFile_ok(2) [OF 2 paths(2) evolvesD [OF c1]]
  have "lookup s2 (tmp_file name) = Some (Reg (new_attr mode_0600 ?c1) (render_keys ks))" by simp
  then obtain a' where "lookup (chown_if ?tmp uid gid s2) (tmp_file name) = Some (Reg a' (render_keys ks))"
    and "a_mode a' = a_mode (new_attr mode_0600 ?c1)" using chown_if_Reg [OF paths(2)] by blast
  with Rename_ok [OF 3 paths(2) paths(1) paths(4)] paths(4) um show ?thesis
    by (auto simp: new_attr_def)
qed

lemma applyer_succeeds:
  assumes f: "abs_file name" and h: "healthy s" and dirs: "no_file_on (file_dir name) s"
    and slots: "file_slot s (target_file name)" "file_slot s (tmp_file name)"
  shows "fst (sshKeysApplyer name uid gid ks s) = None"
proof -
  note paths = file_paths [OF f]
  let ?p = "target_file name" and ?q = "tmp_file name" and ?d = "file_dir name" and ?tmp = "name @ ''.tmp''"
  have up: "butlast ?p = ?d" "butlast ?q = ?d" "?p \<noteq> []" "?q \<noteq> []" by (simp_all add: target_file_def tmp_file_def)
  obtain s1 where 1: "os_MkdirAll (filepath_Dir name) mode_0700 s = (None, s1)" and a1: "adds_dirs ?d s s1"
    and d1: "dir_at s1 ?d" using MkdirAll_healthy [OF h paths(3) dirs] by blast
  let ?c1 = "chown_if (filepath_Dir name) uid gid s1"
  have h1: "healthy s1" using a1 by (simp add: adds_dirs_def)
  have same: "lookup ?c1 ?p = lookup s ?p" "lookup ?c1 ?q = lookup s ?q"
    using adds_dirs_outside [OF a1] chown_if_other [OF paths(3)] paths by (metis)+
  have "file_slot ?c1 ?q" using slots(2) same(2) by (simp add: file_slot_def)
  moreover have "dir_at ?c1 (butlast ?q)" using chown_if_dir [OF paths(3) d1] up(2) by simp
  ultimately obtain a s2 where 2: "os_WriteFile ?tmp (render_keys ks) mode_0600 ?c1 = (None, s2)"
    and l2: "lookup s2 = (lookup ?c1)(?q \<mapsto> Reg a (render_keys ks))" and h2: "healthy s2"
    using WriteFile_healthy [OF chown_if_healthy(1) [OF h1] paths(2)] by blast
  let ?c2 = "chown_if ?tmp uid gid s2"
  obtain a' where q2: "lookup ?c2 ?q = Some (Reg a' (render_keys ks))"
    using chown_if_Reg [OF paths(2), of s2 a "render_keys ks" uid gid] l2 by auto
  have "lookup s2 ?d = lookup ?c1 ?d" "lookup s2 ?p = lookup ?c1 ?p" using l2 paths by auto
  then have "dir_at ?c2 ?d" "file_slot ?c2 ?p"
    using chown_if_other [OF paths(2)] chown_if_dir [OF paths(3) d1] paths slots(1) same(1)
    by (auto simp: dir_at_def file_slot_def)
  with Rename_healthy [OF chown_if_healthy(1) [OF h2] paths(2,1,4) up(4) q2] up paths
  obtain s3 where "os_Rename ?tmp name ?c2 = (None, s3)" by auto
  with 1 2 show ?thesis by (simp add: sshKeysApplyer_def Let_def)
qed

section \<open>The handler\<close>

definition keys_view :: "string \<Rightarrow> os \<Rightarrow> string option" where
  "keys_view name s = (if abs_file name then file_content s name else None)"

definition keys_target :: "string \<Rightarrow> KeySet \<Rightarrow> string option" where
  "keys_target name ks = (if abs_file name then Some (render_keys ks) else None)"

interpretation sshkeys_msg: message_handler "sshkeys_HandleMessage apply_fn" decode_KeySet KeySet_Validate apply_fn for apply_fn
  by unfold_locales (auto simp: sshkeys_HandleMessage_def split: prod.splits)

interpretation keys_file_set: replace_set "sshkeys_HandleMessage (sshKeysApplyer name uid gid)" decode_KeySet
    KeySet_Validate "sshKeysApplyer name uid gid" "keys_view name" "keys_target name" for name uid gid
proof
  fix ks s
  assume ok: "fst (sshKeysApplyer name uid gid ks s) = None"
  show "keys_view name (snd (sshKeysApplyer name uid gid ks s)) = keys_target name ks"
  proof (cases "abs_file name")
    case True
    with applyer_run [OF True, of s ks uid gid] ok file_paths(1) [OF True] show ?thesis
      by (auto simp: keys_view_def keys_target_def file_content_def)
  qed (simp add: keys_view_def keys_target_def)
qed

section \<open>Properties\<close>

text \<open>C1: The rewrite of \<^verbatim>\<open>authorized_keys\<close> is atomic under every fault: in every tree the file system
  goes through, what a reader or a crash could observe, the file is either what it was before the
  update or the complete rendering of the new set; never empty, never a part.\<close>

theorem authorized_keys_atomic:
  assumes "abs_file name"
  shows "evolves (\<lambda>m. m (target_file name) = lookup s (target_file name) \<or>
      (\<exists>a. m (target_file name) = Some (Reg a (render_keys ks))))
    s (snd (sshKeysApplyer name uid gid ks s))"
  using applyer_run [OF assms] by blast

definition keys_demo :: KeySet where
  "keys_demo = \<lparr>ks_Keys = [\<lparr>key_PublicKey = ''ssh-ed25519 AAAA ops''\<rparr>]\<rparr>"

definition keys_path :: string where
  "keys_path = ''/root/.ssh/authorized_keys''"

lemma keys_path_abs: "abs_file keys_path"
  by code_simp

text \<open>A disk that fills up in the middle of the write.\<close>

definition os_full :: os where
  "os_full = os_demo\<lparr>faults := (\<lambda>i. if i = 5 then ShortWrite (EOTHER 28) 10 else NoFault)\<rparr>"

theorem authorized_keys_atomic_witness:
  "evolves (\<lambda>m. m (target_file keys_path) = lookup os_full (target_file keys_path) \<or>
      (\<exists>a. m (target_file keys_path) = Some (Reg a (render_keys keys_demo))))
    os_full (snd (sshKeysApplyer keys_path (- 1) (- 1) keys_demo os_full))"
  by (rule authorized_keys_atomic [OF keys_path_abs])

text \<open>A run of the applyer is all or nothing: if it returns nil, the file holds the header and the
  published keys, one per line, with mode 0600 under the umask when no stale temporary file was
  there; if it returns an error, the file is what it was.\<close>

theorem authorized_keys_all_or_nothing:
  assumes "abs_file name" and "sshKeysApplyer name uid gid ks s = (r, s')"
  shows "(r = None \<longrightarrow> (\<exists>a. lookup s' (target_file name) = Some (Reg a (render_keys ks)) \<and>
      (lookup s (tmp_file name) = None \<longrightarrow> a_mode a = and mode_0600 (not (umask s))))) \<and>
    (r \<noteq> None \<longrightarrow> lookup s' (target_file name) = lookup s (target_file name))"
  using applyer_run [OF assms(1), of s ks uid gid] applyer_mode [OF assms(1), of s uid gid ks s'] assms(2)
  by (auto split: if_splits)

theorem authorized_keys_all_or_nothing_witness:
  "\<exists>r s'. sshKeysApplyer keys_path 0 0 keys_demo os_full = (r, s') \<and>
     (r \<noteq> None \<longrightarrow> lookup s' (target_file keys_path) = lookup os_full (target_file keys_path))"
  using authorized_keys_all_or_nothing [OF keys_path_abs, of 0 0 keys_demo os_full] by (metis prod.collapse)

text \<open>On a healthy file system every update goes through: if nothing but directories is on the
  way and no directory sits at the two file names, the applyer returns nil.\<close>

theorem authorized_keys_applied:
  assumes "abs_file name" and "healthy s" and "no_file_on (file_dir name) s"
    and "file_slot s (target_file name)" and "file_slot s (tmp_file name)"
  shows "fst (sshKeysApplyer name uid gid ks s) = None \<and>
    file_content (snd (sshKeysApplyer name uid gid ks s)) name = Some (render_keys ks)"
  using applyer_succeeds [OF assms] applyer_run [OF assms(1), of s ks uid gid] file_paths(1) [OF assms(1)]
  by (auto simp: file_content_def)

theorem authorized_keys_applied_witness:
  "file_content (snd (sshKeysApplyer keys_path 0 0 keys_demo os_demo)) keys_path = Some (render_keys keys_demo)"
proof -
  have dir: "file_dir keys_path = [''root'', ''.ssh'']" "file_base keys_path = ''authorized_keys''" by code_simp+
  have "no_file_on (file_dir keys_path) os_demo"
    by (auto simp: no_file_on_def dir os_demo_def le_Suc_eq numeral_2_eq_2 split: if_splits)
  then show ?thesis
    using authorized_keys_applied [OF keys_path_abs os_demo_healthy, of 0 0 keys_demo]
    by (simp add: file_slot_def target_file_def tmp_file_def dir os_demo_def)
qed

text \<open>Whole-set updates heal: if a message decodes and its apply returns nil, then, whatever was
  delivered before it and whatever broken messages come after it, the file holds that message's
  keys.  An empty set revokes all keys.\<close>

theorem authorized_keys_last_message_wins:
  assumes "abs_file name" and "decode_KeySet d = Some ks"
    and "fst (sshkeys_HandleMessage (sshKeysApplyer name uid gid) d
        (deliver (sshkeys_HandleMessage (sshKeysApplyer name uid gid)) ms s)) = None"
    and "\<forall>d' \<in> set ns. \<not> good decode_KeySet KeySet_Validate d'"
  shows "file_content (deliver (sshkeys_HandleMessage (sshKeysApplyer name uid gid)) (ms @ [d] @ ns) s) name
    = Some (render_keys ks)"
  using keys_file_set.last_good_wins [OF assms(2,3,4)] assms(1) by (simp add: keys_view_def keys_target_def)

definition revoke_all :: string where
  "revoke_all = json_print (JObj [(''keys'', JArr [])])"

lemma revoke_all_decodes: "decode_KeySet revoke_all = Some \<lparr>ks_Keys = []\<rparr>"
  by code_simp

theorem authorized_keys_last_message_wins_witness:
  "file_content (deliver (sshkeys_HandleMessage (sshKeysApplyer keys_path 0 0)) ([] @ [revoke_all] @ [''[]'']) os_demo) keys_path
     = Some keys_header"
proof -
  have dir: "file_dir keys_path = [''root'', ''.ssh'']" "file_base keys_path = ''authorized_keys''" by code_simp+
  have "no_file_on (file_dir keys_path) os_demo"
    by (auto simp: no_file_on_def dir os_demo_def le_Suc_eq numeral_2_eq_2 split: if_splits)
  then have "fst (sshKeysApplyer keys_path 0 0 \<lparr>ks_Keys = []\<rparr> os_demo) = None"
    by (intro applyer_succeeds keys_path_abs os_demo_healthy)
      (simp_all add: file_slot_def target_file_def tmp_file_def dir os_demo_def)
  then have "fst (sshkeys_HandleMessage (sshKeysApplyer keys_path 0 0) revoke_all os_demo) = None"
    by (simp add: sshkeys_msg.handle_valid [OF revoke_all_decodes] KeySet_Validate_def)
  moreover have "\<not> good decode_KeySet KeySet_Validate ''[]''" by code_simp
  ultimately show ?thesis
    using authorized_keys_last_message_wins [OF keys_path_abs revoke_all_decodes, of 0 0 "[]" os_demo "[''[]'']"]
    by (simp add: render_keys_def)
qed

text \<open>Validation looks at the first two fields only, so a line break inside a key smuggles a further,
  unchecked line into the file.\<close>

lemma Validate_accepts_line_break:
  "KeySet_Validate \<lparr>ks_Keys = [\<lparr>key_PublicKey = ''ssh-rsa AAAA'' @ [LF] @ ''no-such-algorithm BBBB''\<rparr>]\<rparr> = None"
  by (simp add: KeySet_Validate_def Let_def Fields_def runes.simps rune_defs IsSpace_def key_algorithms_def)

end
