(* ===== verification/Go_Bytes.thy ===== *)
theory Go_Bytes
  imports Weft_Prelude
begin

unbundle bit_operations_syntax

text \<open>
  Package \<open>encoding/binary\<close> as far as the agent uses it: big-endian 16- and 32-bit numbers.
\<close>

definition be32 :: "u32 \<Rightarrow> byte list" where
  "be32 w = [ucast (drop_bit 24 w), ucast (drop_bit 16 w), ucast (drop_bit 8 w), ucast w]"

definition be16 :: "u16 \<Rightarrow> byte list" where
  "be16 w = [ucast (drop_bit 8 w), ucast w]"

definition beUint16 :: "byte list \<Rightarrow> u16" where
  "beUint16 b = (push_bit 8 (ucast (b ! 0)) OR ucast (b ! 1))"

lemma be32_length [simp]: "length (be32 w) = 4"
  by (simp add: be32_def)

lemma be16_length [simp]: "length (be16 w) = 2"
  by (simp add: be16_def)

lemma beUint16_be16 [simp]: "beUint16 (be16 w) = w"
proof (rule bit_word_eqI)
  fix n
  assume "n < LENGTH(16)"
  then consider "n < 8" | "8 \<le> n" "n < 16" by fastforce
  then show "bit (beUint16 (be16 w)) n = bit w n"
    by cases (auto simp: beUint16_def be16_def bit_simps)
qed

end
