(* ===== verification/Sshd.thy ===== *)
theory Sshd
  imports Sshkeys Go_Bytes
begin

unbundle bit_operations_syntax

text \<open>
  Package \<open>sshd\<close>: the set of authorised keys, the host key, the payload parsers of the SSH requests,
  and the session loop.  Parsing and fingerprinting of keys belong to \<^verbatim>\<open>golang.org/x/crypto/ssh\<close> and are
  parameters.  A Go panic is a value of its own, \<open>Panic\<close>: it ends the whole agent, since no goroutine
  recovers.
\<close>

section \<open>AuthStore\<close>

text \<open>The part of the ssh library the store calls: \<open>ParseAuthorizedKey\<close> (key and comment),
  \<open>FingerprintSHA256\<close> and \<open>PublicKey.Marshal\<close>.\<close>

record 'k ssh_lib =
  ParseAuthorizedKey :: "string \<Rightarrow> ('k \<times> string) option"
  FingerprintSHA256 :: "'k \<Rightarrow> string"
  Marshal :: "'k \<Rightarrow> string"

record 'k AuthStore =
  byFingerprint :: "string \<rightharpoonup> 'k"
  names :: "string \<rightharpoonup> string"

definition NewAuthStore :: "'k AuthStore" where
  "NewAuthStore = \<lparr>byFingerprint = Map.empty, names = Map.empty\<rparr>"

fun replace_loop :: "'k ssh_lib \<Rightarrow> Key list \<Rightarrow> 'k AuthStore \<Rightarrow> nat \<Rightarrow> nat \<Rightarrow> 'k AuthStore \<times> nat \<times> nat" where
  "replace_loop lib [] fresh accepted rejected = (fresh, accepted, rejected)"
| "replace_loop lib (k # ks) fresh accepted rejected =
     (case ParseAuthorizedKey lib (key_PublicKey k) of
        None \<Rightarrow> replace_loop lib ks fresh accepted (Suc rejected)
      | Some (pub, comment) \<Rightarrow>
          let fp = FingerprintSHA256 lib pub in
          replace_loop lib ks (fresh\<lparr>byFingerprint := (byFingerprint fresh)(fp \<mapsto> pub),
            names := (names fresh)(fp \<mapsto> comment)\<rparr>) (Suc accepted) rejected)"

text \<open>\<open>Replace\<close> builds both maps aside and swaps them in under the lock.\<close>

definition Replace :: "'k ssh_lib \<Rightarrow> KeySet \<Rightarrow> 'k AuthStore \<Rightarrow> (nat \<times> nat) \<times> 'k AuthStore" where
  "Replace lib ks s = (case replace_loop lib (ks_Keys ks) NewAuthStore 0 0 of
     (fresh, accepted, rejected) \<Rightarrow>
       ((accepted, rejected), s\<lparr>byFingerprint := byFingerprint fresh, names := names fresh\<rparr>))"

definition Authorize :: "'k ssh_lib \<Rightarrow> 'k \<Rightarrow> 'k AuthStore \<Rightarrow> string option" where
  "Authorize lib key s =
     (let fp = FingerprintSHA256 lib key; n = (case names s fp of None \<Rightarrow> [] | Some n \<Rightarrow> n) in
      case byFingerprint s fp of
        None \<Rightarrow> None
      | Some pub \<Rightarrow> if Marshal lib pub \<noteq> Marshal lib key then None else Some n)"

definition Size :: "'k AuthStore \<Rightarrow> nat" where
  "Size s = card (dom (byFingerprint s))"

text \<open>\<open>config\<close>: the public-key callback of the server, with the permissions it attaches.\<close>

definition PublicKeyCallback :: "'k ssh_lib \<Rightarrow> 'k AuthStore \<Rightarrow> 'k \<Rightarrow> (string \<times> string) list option" where
  "PublicKeyCallback lib s key = (case Authorize lib key s of
       None \<Rightarrow> None
     | Some name \<Rightarrow> Some [(''weft-key-name'', name), (''weft-key-fingerprint'', FingerprintSHA256 lib key)])"

section \<open>Request payloads\<close>

datatype 'a go = Ret 'a | Panic

definition beUint32 :: "byte list \<Rightarrow> u32" where
  "beUint32 b = (push_bit 24 (ucast (b ! 0)) OR push_bit 16 (ucast (b ! 1)) OR push_bit 8 (ucast (b ! 2)) OR ucast (b ! 3))"

text \<open>The slice expression \<^verbatim>\<open>b[i:j]\<close>, and \<^verbatim>\<open>b[i:]\<close> with \<open>j\<close> the length.\<close>

definition slice :: "byte list \<Rightarrow> nat \<Rightarrow> nat \<Rightarrow> byte list go" where
  "slice b i j = (if i \<le> j \<and> j \<le> length b then Ret (take (j - i) (drop i b)) else Panic)"

definition unmarshalString :: "byte list \<Rightarrow> (string \<times> byte list \<times> bool) go" where
  "unmarshalString b =
     (if length b < 4 then Ret ([], b, False)
      else let n = beUint32 (take 4 b) in
        if (of_nat (length b) :: u32) < 4 + n then Ret ([], b, False)
        else case slice b 4 (unat (4 + n)) of
          Panic \<Rightarrow> Panic
        | Ret s \<Rightarrow> (case slice b (unat (4 + n)) (length b) of
            Panic \<Rightarrow> Panic
          | Ret rest \<Rightarrow> Ret (string_of_bytes s, rest, True)))"

record ptyReqPayload =
  pr_term :: string
  pr_cols :: u32
  pr_rows :: u32
  pr_xPx :: u32
  pr_yPx :: u32

definition parsePtyReq :: "byte list \<Rightarrow> ptyReqPayload option go" where
  "parsePtyReq p = (case unmarshalString p of
       Panic \<Rightarrow> Panic
     | Ret (term, rest, ok) \<Rightarrow>
         if \<not> ok then Ret None
         else if length rest < 16 then Ret None
         else Ret (Some \<lparr>pr_term = term, pr_cols = beUint32 (take 4 rest), pr_rows = beUint32 (take 4 (drop 4 rest)),
                pr_xPx = beUint32 (take 4 (drop 8 rest)), pr_yPx = beUint32 (take 4 (drop 12 rest))\<rparr>))"

definition parseEnvReq :: "byte list \<Rightarrow> (string \<times> string) option go" where
  "parseEnvReq p = (case unmarshalString p of
       Panic \<Rightarrow> Panic
     | Ret (k, rest, ok) \<Rightarrow>
         if \<not> ok then Ret None
         else (case unmarshalString rest of
             Panic \<Rightarrow> Panic
           | Ret (v, _, ok2) \<Rightarrow> Ret (if ok2 then Some (k, v) else None)))"

definition parseExecReq :: "byte list \<Rightarrow> string option go" where
  "parseExecReq p = (case unmarshalString p of
       Panic \<Rightarrow> Panic
     | Ret (line, _, ok) \<Rightarrow> Ret (if ok then Some line else None))"

record winChPayload =
  wc_cols :: u32
  wc_rows :: u32
  wc_xPx :: u32
  wc_yPx :: u32

definition parseWinChReq :: "byte list \<Rightarrow> winChPayload option" where
  "parseWinChReq p =
     (if length p < 16 then None
      else Some \<lparr>wc_cols = beUint32 (take 4 p), wc_rows = beUint32 (take 4 (drop 4 p)),
             wc_xPx = beUint32 (take 4 (drop 8 p)), wc_yPx = beUint32 (take 4 (drop 12 p))\<rparr>)"

section \<open>Sessions\<close>

record ssh_request =
  rq_Type :: string
  rq_Payload :: "byte list"
  rq_WantReply :: bool

text \<open>The child \<open>startShell\<close> forks: its command line, environment and window.\<close>

record shell_start =
  sh_argv :: "string list"
  sh_env :: "string list"
  sh_rows :: u16
  sh_cols :: u16

text \<open>What a session does to the outside: replies, attempts to start the child, window sizes set on a
  PTY master (a number stands for the file).\<close>

datatype session_event = Reply bool | StartShell shell_start | Setsize nat u16 u16 u16 u16

record session =
  se_ptyReq :: "ptyReqPayload option"
  se_envVars :: "string list"
  se_ptyMaster :: "nat option"
  se_started :: bool
  se_events :: "session_event list"

datatype session_result = Loop session | Return session | Crash session

definition new_session :: session where
  "new_session = \<lparr>se_ptyReq = None, se_envVars = [], se_ptyMaster = None, se_started = False, se_events = []\<rparr>"

definition emit :: "session_event \<Rightarrow> session \<Rightarrow> session" where
  "emit e s = s\<lparr>se_events := se_events s @ [e]\<rparr>"

definition shell_command :: "string \<Rightarrow> string list \<Rightarrow> ptyReqPayload option \<Rightarrow> string list \<Rightarrow> string \<Rightarrow> shell_start" where
  "shell_command shell environ ptyReq envVars execLine =
     \<lparr>sh_argv = shell # (if execLine \<noteq> [] then [''-c'', execLine] else []),
      sh_env = environ @ envVars @ (case ptyReq of
        Some r \<Rightarrow> (if pr_term r \<noteq> [] then [''TERM='' @ pr_term r] else []) | None \<Rightarrow> []),
      sh_rows = (case ptyReq of Some r \<Rightarrow> ucast (pr_rows r) | None \<Rightarrow> 24),
      sh_cols = (case ptyReq of Some r \<Rightarrow> ucast (pr_cols r) | None \<Rightarrow> 80)\<rparr>"

text \<open>The common tail of the \<open>shell\<close> and \<open>exec\<close> requests; \<open>start\<close> is the outcome of
  \<^verbatim>\<open>pty.StartWithSize\<close>, the PTY master or an error.\<close>

definition start_child :: "(shell_start \<Rightarrow> nat option) \<Rightarrow> shell_start \<Rightarrow> session \<Rightarrow> session_result" where
  "start_child start cmd s =
     (let s1 = emit (StartShell cmd) s in
      case start cmd of
        None \<Rightarrow> Return (emit (Reply False) s1)
      | Some f \<Rightarrow> Loop (emit (Reply True) (s1\<lparr>se_ptyMaster := Some f\<rparr>)))"

definition session_step :: "string \<Rightarrow> string list \<Rightarrow> (shell_start \<Rightarrow> nat option) \<Rightarrow> ssh_request \<Rightarrow> session \<Rightarrow>
    session_result" where
  "session_step shell environ start req s =
     (if rq_Type req = ''pty-req'' then
        (case parsePtyReq (rq_Payload req) of
           Panic \<Rightarrow> Crash s
         | Ret None \<Rightarrow> Loop (emit (Reply False) s)
         | Ret (Some p) \<Rightarrow> Loop (emit (Reply True) (s\<lparr>se_ptyReq := Some p\<rparr>)))
      else if rq_Type req = ''env'' then
        (case parseEnvReq (rq_Payload req) of
           Panic \<Rightarrow> Crash s
         | Ret None \<Rightarrow> Loop (emit (Reply True) s)
         | Ret (Some (k, v)) \<Rightarrow> Loop (emit (Reply True) (s\<lparr>se_envVars := se_envVars s @ [k @ ''='' @ v]\<rparr>)))
      else if rq_Type req = ''shell'' then
        (if se_started s then Loop (emit (Reply False) s)
         else start_child start (shell_command shell environ (se_ptyReq s) (se_envVars s) [])
                (s\<lparr>se_started := True\<rparr>))
      else if rq_Type req = ''exec'' then
        (if se_started s then Loop (emit (Reply False) s)
         else (case parseExecReq (rq_Payload req) of
             Panic \<Rightarrow> Crash (s\<lparr>se_started := True\<rparr>)
           | Ret None \<Rightarrow> Loop (emit (Reply False) (s\<lparr>se_started := True\<rparr>))
           | Ret (Some line) \<Rightarrow>
               start_child start (shell_command shell environ (se_ptyReq s) (se_envVars s) line)
                 (s\<lparr>se_started := True\<rparr>)))
      else if rq_Type req = ''window-change'' then
        (case se_ptyMaster s of
           None \<Rightarrow> Loop s
         | Some f \<Rightarrow> (case parseWinChReq (rq_Payload req) of
             None \<Rightarrow> Loop s
           | Some w \<Rightarrow> Loop (emit (Setsize f (ucast (wc_rows w)) (ucast (wc_cols w)) (ucast (wc_xPx w))
                  (ucast (wc_yPx w))) s)))
      else if rq_WantReply req then Loop (emit (Reply False) s)
      else Loop s)"

text \<open>The loop ends when the request channel is closed.\<close>

fun handleSession :: "string \<Rightarrow> string list \<Rightarrow> (shell_start \<Rightarrow> nat option) \<Rightarrow> ssh_request list \<Rightarrow> session \<Rightarrow>
    session_result" where
  "handleSession shell environ start [] s = Return s"
| "handleSession shell environ start (req # reqs) s =
     (case session_step shell environ start req s of
        Loop s1 \<Rightarrow> handleSession shell environ start reqs s1
      | Return s1 \<Rightarrow> Return s1
      | Crash s1 \<Rightarrow> Crash s1)"

text \<open>The payload of the \<open>exit-status\<close> request: \<^verbatim>\<open>uint32(state.ExitCode())\<close>, most significant byte first.\<close>

definition exit_payload :: "int option \<Rightarrow> byte list" where
  "exit_payload state = be32 (case state of None \<Rightarrow> 0 | Some code \<Rightarrow> word_of_int code)"

section \<open>Connections\<close>

datatype channel_outcome = Rejected string | AcceptFailed | SessionStarted

text \<open>The channels a client opens: their type, and whether \<open>Accept\<close> succeeds.\<close>

definition handle_channel :: "string \<times> bool \<Rightarrow> channel_outcome" where
  "handle_channel = (\<lambda>(ty, ok). if ty \<noteq> ''session'' then Rejected ''weft-microvm-agent only supports session channels''
     else if \<not> ok then AcceptFailed else SessionStarted)"

text \<open>One connection.  \<open>handshake\<close> is \<^verbatim>\<open>ssh.NewServerConn\<close>: given the public-key callback, the permissions
  of the authenticated client, or an error.\<close>

type_synonym 'k handshake = "('k \<Rightarrow> (string \<times> string) list option) \<Rightarrow> (string \<times> string) list option"

definition handleConn :: "'k handshake \<Rightarrow> 'k ssh_lib \<Rightarrow> 'k AuthStore \<Rightarrow> (string \<times> bool) list \<Rightarrow>
    channel_outcome list option" where
  "handleConn handshake lib store chans = (case handshake (PublicKeyCallback lib store) of
       None \<Rightarrow> None
     | Some _ \<Rightarrow> Some (map handle_channel chans))"

datatype accept = Conn | ErrClosed | AcceptError

fun Serve :: "accept list \<Rightarrow> nat \<Rightarrow> (bool \<times> nat) option" where
  "Serve [] served = None"
| "Serve (Conn # as) served = Serve as (Suc served)"
| "Serve (ErrClosed # as) served = Some (True, served)"
| "Serve (AcceptError # as) served = Some (False, served)"

section \<open>Host key\<close>

text \<open>Key generation and the PKCS#8/PEM encoding are those of the Go library; the code relies on a
  written key being read back as the same signer.\<close>

record ('p, 's) hostkey_lib =
  GenerateKey :: "'p option"
  EncodePEM :: "'p \<Rightarrow> string option"
  ParsePEM :: "string \<Rightarrow> 's option"

datatype hostkey_error = EmptyPath | ParseHostKey | ReadHostKey errno | MkdirHostKey errno | GenerateFailed
  | MarshalFailed | WriteHostKey errno | CommitHostKey errno

definition parseHostKey :: "('p, 's) hostkey_lib \<Rightarrow> string \<Rightarrow> hostkey_error + 's" where
  "parseHostKey lib pemBytes = (case ParsePEM lib pemBytes of None \<Rightarrow> Inl ParseHostKey | Some s \<Rightarrow> Inr s)"

definition create_hostkey :: "('p, 's) hostkey_lib \<Rightarrow> string \<Rightarrow> os \<Rightarrow> (hostkey_error + 's) \<times> os" where
  "create_hostkey lib name s = (case os_MkdirAll (filepath_Dir name) mode_0700 s of
       (Some e, s1) \<Rightarrow> (Inl (MkdirHostKey e), s1)
     | (None, s1) \<Rightarrow> (case GenerateKey lib of
         None \<Rightarrow> (Inl GenerateFailed, s1)
       | Some priv \<Rightarrow> (case EncodePEM lib priv of
           None \<Rightarrow> (Inl MarshalFailed, s1)
         | Some pemBytes \<Rightarrow> (case os_WriteFile (name @ ''.tmp'') pemBytes mode_0600 s1 of
             (Some e, s2) \<Rightarrow> (Inl (WriteHostKey e), s2)
           | (None, s2) \<Rightarrow> (case os_Rename (name @ ''.tmp'') name s2 of
               (Some e, s3) \<Rightarrow> (Inl (CommitHostKey e), snd (os_Remove (name @ ''.tmp'') s3))
             | (None, s3) \<Rightarrow> (parseHostKey lib pemBytes, s3))))))"

definition LoadOrCreateHostKey :: "('p, 's) hostkey_lib \<Rightarrow> string \<Rightarrow> os \<Rightarrow> (hostkey_error + 's) \<times> os" where
  "LoadOrCreateHostKey lib name s =
     (if name = [] then (Inl EmptyPath, s)
      else case os_ReadFile name s of
        (Inr b, s1) \<Rightarrow> (parseHostKey lib b, s1)
      | (Inl e, s1) \<Rightarrow> if e \<noteq> ENOENT then (Inl (ReadHostKey e), s1) else create_hostkey lib name s1)"

section \<open>Lemmas on the store\<close>

definition parsed :: "'k ssh_lib \<Rightarrow> Key list \<Rightarrow> ('k \<times> string) list" where
  "parsed lib ks = List.map_filter (\<lambda>k. ParseAuthorizedKey lib (key_PublicKey k)) ks"

lemma parsed_simps [simp]:
  "parsed lib [] = []"
  "parsed lib (k # ks) = (case ParseAuthorizedKey lib (key_PublicKey k) of None \<Rightarrow> [] | Some x \<Rightarrow> [x]) @ parsed lib ks"
  by (auto simp: parsed_def List.map_filter_def split: option.splits)

lemma set_parsed: "x \<in> set (parsed lib ks) \<longleftrightarrow> (\<exists>k \<in> set ks. ParseAuthorizedKey lib (key_PublicKey k) = Some x)"
  by (cases x) (induction ks, auto split: option.splits)

lemma replace_loop_maps:
  "replace_loop lib ks fresh a r = (fresh', a', r') \<Longrightarrow>
     byFingerprint fresh' = byFingerprint fresh ++ map_of (rev (map (\<lambda>x. (FingerprintSHA256 lib (fst x), fst x)) (parsed lib ks))) \<and>
     names fresh' = names fresh ++ map_of (rev (map (\<lambda>x. (FingerprintSHA256 lib (fst x), snd x)) (parsed lib ks))) \<and>
     a' = a + length (parsed lib ks) \<and> a' + r' = a + r + length ks"
proof (induction ks arbitrary: fresh a r)
  case (Cons k ks)
  show ?case
  proof (cases "ParseAuthorizedKey lib (key_PublicKey k)")
    case None
    with Cons.IH [of fresh a "Suc r"] Cons.prems show ?thesis by simp
  next
    case (Some x)
    then obtain pub c where x: "ParseAuthorizedKey lib (key_PublicKey k) = Some (pub, c)" by (cases x) auto
    with Cons.prems have "replace_loop lib ks (fresh\<lparr>byFingerprint := (byFingerprint fresh)(FingerprintSHA256 lib pub \<mapsto> pub),
        names := (names fresh)(FingerprintSHA256 lib pub \<mapsto> c)\<rparr>) (Suc a) r = (fresh', a', r')"
      by (simp add: Let_def)
    from Cons.IH [OF this] x show ?thesis by (auto simp: fun_eq_iff map_add_def split: option.splits)
  qed
qed simp

lemma map_of_rev_find:
  "map_of (map (\<lambda>x. (f x, g x)) xs) k = map_option g (find (\<lambda>x. f x = k) xs)"
  by (induction xs) auto

lemma find_SomeD: "find P xs = Some x \<Longrightarrow> x \<in> set xs \<and> P x"
  by (induction xs) (auto split: if_splits)

text \<open>A key is looked up among the accepted lines, the last one first.\<close>

lemma Authorize_Replace:
  "Authorize lib key (snd (Replace lib ks s)) =
     (case find (\<lambda>x. FingerprintSHA256 lib (fst x) = FingerprintSHA256 lib key) (rev (parsed lib (ks_Keys ks))) of
        None \<Rightarrow> None
      | Some x \<Rightarrow> if Marshal lib (fst x) = Marshal lib key then Some (snd x) else None)"
proof -
  obtain fresh a r where loop: "replace_loop lib (ks_Keys ks) NewAuthStore 0 0 = (fresh, a, r)"
    by (metis prod.collapse)
  let ?x = "find (\<lambda>x. FingerprintSHA256 lib (fst x) = FingerprintSHA256 lib key) (rev (parsed lib (ks_Keys ks)))"
  from replace_loop_maps [OF loop]
  have "byFingerprint fresh (FingerprintSHA256 lib key) = map_option fst ?x"
    and "names fresh (FingerprintSHA256 lib key) = map_option snd ?x"
    by (simp_all add: NewAuthStore_def rev_map map_of_rev_find)
  then show ?thesis
    by (cases ?x) (simp_all add: Replace_def loop Authorize_def Let_def)
qed

text \<open>What the ssh library documents: the fingerprint is a hash of the marshalled key, and the hash does
  not collide.\<close>

definition ssh_laws :: "'k ssh_lib \<Rightarrow> bool" where
  "ssh_laws lib \<longleftrightarrow> (\<forall>k k'. FingerprintSHA256 lib k = FingerprintSHA256 lib k' \<longleftrightarrow> Marshal lib k = Marshal lib k')"

section \<open>Lemmas on payloads\<close>

lemma beUint32_be32: "beUint32 (be32 w) = w"
proof (rule bit_word_eqI)
  fix n
  assume "n < LENGTH(32)"
  then consider "n < 8" | "8 \<le> n" "n < 16" | "16 \<le> n" "n < 24" | "24 \<le> n" "n < 32" by fastforce
  then show "bit (beUint32 (be32 w)) n = bit w n"
    by cases (auto simp: beUint32_def be32_def bit_simps)
qed

lemma unat_4_plus:
  "unat (4 + n :: u32) = (if unat n < 2 ^ 32 - 4 then 4 + unat n else unat n + 4 - 2 ^ 32)"
proof -
  have "unat n < 2 ^ 32" using unsigned_less [of n, where ?'a = nat] by simp
  then show ?thesis by (auto simp: unat_word_ariths mod_if)
qed

lemma u32_of_length: "length b < 2 ^ 32 \<Longrightarrow> unat (of_nat (length b) :: u32) = length b"
  by (simp add: unat_of_nat)

text \<open>The guard adds in 32 bits, so it lets the four largest lengths through.\<close>

lemma unmarshalString_cases:
  assumes "length b < 2 ^ 32"
  shows "unmarshalString b =
    (if length b < 4 then Ret ([], b, False)
     else let n = unat (beUint32 (take 4 b)) in
       if 2 ^ 32 - 4 \<le> n then Panic
       else if length b < 4 + n then Ret ([], b, False)
       else Ret (string_of_bytes (take n (drop 4 b)), drop (4 + n) b, True))"
proof (cases "length b < 4")
  case False
  let ?w = "beUint32 (take 4 b)"
  have bound: "unat ?w < 2 ^ 32" using unsigned_less [of ?w, where ?'a = nat] by simp
  have less: "(of_nat (length b) :: u32) < 4 + ?w \<longleftrightarrow> length b < unat (4 + ?w)"
    by (simp add: word_less_nat_alt u32_of_length [OF assms])
  show ?thesis
  proof (cases "unat ?w < 2 ^ 32 - 4")
    case True
    then have "unat (4 + ?w) = 4 + unat ?w" by (simp add: unat_4_plus)
    with True False less show ?thesis by (simp add: unmarshalString_def Let_def slice_def)
  next
    case wrap: False
    then have "unat (4 + ?w) = unat ?w + 4 - 2 ^ 32" using unat_4_plus [of ?w] by presburger
    with bound have "unat (4 + ?w) < 4" by simp
    with wrap False less show ?thesis by (simp add: unmarshalString_def Let_def slice_def)
  qed
qed (simp add: unmarshalString_def)

section \<open>Lemmas on sessions\<close>

fun session_of :: "session_result \<Rightarrow> session" where
  "session_of (Loop s) = s"
| "session_of (Return s) = s"
| "session_of (Crash s) = s"

definition starts :: "session \<Rightarrow> shell_start list" where
  "starts s = List.map_filter (\<lambda>e. case e of StartShell c \<Rightarrow> Some c | _ \<Rightarrow> None) (se_events s)"

definition resized :: "session \<Rightarrow> nat list" where
  "resized s = List.map_filter (\<lambda>e. case e of Setsize f r c x y \<Rightarrow> Some f | _ \<Rightarrow> None) (se_events s)"

text \<open>The invariant of the loop: no child before \<open>started\<close>, at most one ever, and only its master is
  resized.\<close>

definition session_inv :: "session \<Rightarrow> bool" where
  "session_inv s \<longleftrightarrow> length (starts s) \<le> (if se_started s then 1 else 0) \<and>
     (se_ptyMaster s \<noteq> None \<longrightarrow> se_started s) \<and> (\<forall>f \<in> set (resized s). se_ptyMaster s = Some f)"

lemma emit_simps [simp]:
  "starts (emit e s) = starts s @ (case e of StartShell c \<Rightarrow> [c] | _ \<Rightarrow> [])"
  "resized (emit e s) = resized s @ (case e of Setsize f r c x y \<Rightarrow> [f] | _ \<Rightarrow> [])"
  "se_started (emit e s) = se_started s" "se_ptyMaster (emit e s) = se_ptyMaster s"
  by (auto simp: starts_def resized_def emit_def List.map_filter_def split: session_event.splits)

lemma events_update [simp]:
  "starts (s\<lparr>se_ptyReq := p\<rparr>) = starts s" "starts (s\<lparr>se_envVars := v\<rparr>) = starts s"
  "starts (s\<lparr>se_ptyMaster := m\<rparr>) = starts s" "starts (s\<lparr>se_started := b\<rparr>) = starts s"
  "resized (s\<lparr>se_ptyReq := p\<rparr>) = resized s" "resized (s\<lparr>se_envVars := v\<rparr>) = resized s"
  "resized (s\<lparr>se_ptyMaster := m\<rparr>) = resized s" "resized (s\<lparr>se_started := b\<rparr>) = resized s"
  by (simp_all add: starts_def resized_def)

lemma session_inv_new: "session_inv new_session"
  by (simp add: session_inv_def new_session_def starts_def resized_def List.map_filter_def)

lemma session_inv_emit: "session_inv s \<Longrightarrow> session_inv (emit (Reply b) s)"
  by (auto simp: session_inv_def)

lemma session_inv_fields:
  "session_inv s \<Longrightarrow> session_inv (s\<lparr>se_ptyReq := p\<rparr>)" "session_inv s \<Longrightarrow> session_inv (s\<lparr>se_envVars := v\<rparr>)"
  "session_inv s \<Longrightarrow> session_inv (s\<lparr>se_started := True\<rparr>)"
  by (auto simp: session_inv_def split: if_splits)

lemma session_inv_setsize:
  "session_inv s \<Longrightarrow> se_ptyMaster s = Some f \<Longrightarrow> session_inv (emit (Setsize f r c x y) s)"
  by (auto simp: session_inv_def)

lemma session_inv_start:
  assumes "session_inv s" and "\<not> se_started s"
  shows "session_inv (session_of (start_child start cmd (s\<lparr>se_started := True\<rparr>)))"
proof -
  have "se_ptyMaster s = None" and "starts s = []" using assms by (auto simp: session_inv_def)
  moreover from this have "resized s = []" using assms(1) by (cases "resized s") (auto simp: session_inv_def)
  ultimately show ?thesis by (auto simp: start_child_def Let_def session_inv_def split: option.splits)
qed

lemmas session_invs = session_inv_emit session_inv_fields session_inv_setsize session_inv_start

lemma session_inv_step: "session_inv s \<Longrightarrow> session_inv (session_of (session_step shell environ start req s))"
  by (auto simp: session_step_def intro!: session_invs split: go.splits option.splits)

lemma session_inv_run: "session_inv s \<Longrightarrow> session_inv (session_of (handleSession shell environ start reqs s))"
proof (induction reqs arbitrary: s)
  case (Cons req reqs)
  from session_inv_step [OF Cons.prems, of shell environ start req] Cons.IH show ?case
    by (auto split: session_result.splits)
qed simp

section \<open>Lemmas on the host key\<close>

lemma create_hostkey_run:
  fixes s :: os and lib :: "('p, 's) hostkey_lib"
  assumes f: "abs_file name"
  defines "p \<equiv> target_file name"
  defines "ok \<equiv> \<lambda>m. m p = lookup s p \<or>
    (\<exists>priv pem a. GenerateKey lib = Some priv \<and> EncodePEM lib priv = Some pem \<and> m p = Some (Reg a pem))"
  shows "evolves ok s (snd (create_hostkey lib name s)) \<and>
    (\<forall>k. fst (create_hostkey lib name s) = Inr k \<longrightarrow>
      (\<exists>a pem. lookup (snd (create_hostkey lib name s)) p = Some (Reg a pem) \<and> ParsePEM lib pem = Some k))"
proof -
  note paths = file_paths [OF f, folded p_def]
  let ?K = "\<lambda>m. m p = lookup s p" and ?tmp = "name @ ''.tmp''"
  have mono: "evolves ok t t'" if "evolves ?K t t'" for t t' using that by (rule evolves_mono) (simp add: ok_def)
  obtain r1 s1 where 1: "os_MkdirAll (filepath_Dir name) mode_0700 s = (r1, s1)" by force
  have k1: "evolves ?K s s1" using keep_MkdirAll [OF paths(3) paths(7) refl, of s mode_0700] 1 by simp
  show ?thesis
  proof (cases "r1 = None \<and> (\<exists>priv pem. GenerateKey lib = Some priv \<and> EncodePEM lib priv = Some pem)")
    case False
    with 1 mono [OF k1] show ?thesis by (auto simp: create_hostkey_def split: option.splits)
  next
    case True
    then obtain priv pem where gen: "GenerateKey lib = Some priv" "EncodePEM lib priv = Some pem" and r1: "r1 = None"
      by blast
    obtain r2 s2 where 2: "os_WriteFile ?tmp pem mode_0600 s1 = (r2, s2)" by force
    obtain r3 s3 where 3: "os_Rename ?tmp name s2 = (r3, s3)" by force
    then have 4: "os_Rename ?tmp name (chown_if ?tmp (- 1) (- 1) s2) = (r3, s3)" by (simp add: chown_if_def)
    note tail = replace_tail [OF f 2 4, folded p_def, unfolded evolvesD [OF k1]]
    have up: "evolves ok s t" if "evolves (\<lambda>m. m p = lookup s p \<or> (\<exists>a. m p = Some (Reg a pem))) s1 t" for t
      using evolves_trans [OF mono [OF k1] evolves_mono [OF that]] gen by (auto simp: ok_def)
    show ?thesis
      using 1 2 3 r1 gen tail up
      by (cases r2; cases r3)
        (auto simp: create_hostkey_def parseHostKey_def split: option.splits)
  qed
qed

lemma ReadFile_Inr:
  "os_ReadFile name s = (Inr b, s1) \<Longrightarrow> kpath name = Inr p \<Longrightarrow> s1 = tick s \<and> (\<exists>a. lookup s p = Some (Reg a b))"
  by (auto simp: os_ReadFile_def dest!: resolve_Inr split: option.splits sum.splits node.splits)

lemma ReadFile_Inl: "os_ReadFile name s = (Inl e, s1) \<Longrightarrow> s1 = tick s"
  by (auto simp: os_ReadFile_def split: option.splits sum.splits node.splits)

lemma ReadFile_healthy:
  "healthy s \<Longrightarrow> kpath name = Inr p \<Longrightarrow> lookup s p = Some (Reg a b) \<Longrightarrow> os_ReadFile name s = (Inr b, tick s)"
  by (simp add: os_ReadFile_def healthy_def wf_resolve)

lemma LoadOrCreate_stored:
  assumes f: "abs_file name" and run: "LoadOrCreateHostKey lib name s = (Inr k, s')"
  shows "\<exists>a pem. lookup s' (target_file name) = Some (Reg a pem) \<and> ParsePEM lib pem = Some k"
proof -
  note path = file_paths(1) [OF f]
  have "name \<noteq> []" using f by (auto simp: abs_file_def HasPrefix_def)
  obtain r s1 where read: "os_ReadFile name s = (r, s1)" by force
  show ?thesis
  proof (cases r)
    case (Inr b)
    with run read ReadFile_Inr [OF _ path, of s b s1] \<open>name \<noteq> []\<close> show ?thesis
      by (auto simp: LoadOrCreateHostKey_def parseHostKey_def split: option.splits)
  next
    case (Inl e)
    with run read \<open>name \<noteq> []\<close> have "create_hostkey lib name s1 = (Inr k, s')"
      by (auto simp: LoadOrCreateHostKey_def split: if_splits)
    with create_hostkey_run [OF f, of s1 lib] show ?thesis by auto
  qed
qed

lemma Authorize_published:
  assumes "ssh_laws lib"
  shows "Authorize lib key (snd (Replace lib ks s)) \<noteq> None \<longleftrightarrow>
    (\<exists>k \<in> set (ks_Keys ks). \<exists>pub c. ParseAuthorizedKey lib (key_PublicKey k) = Some (pub, c) \<and>
       Marshal lib pub = Marshal lib key)"
proof -
  let ?P = "\<lambda>x. FingerprintSHA256 lib (fst x) = FingerprintSHA256 lib key" and ?xs = "parsed lib (ks_Keys ks)"
  have law: "?P x \<longleftrightarrow> Marshal lib (fst x) = Marshal lib key" for x using assms by (simp add: ssh_laws_def)
  have "Authorize lib key (snd (Replace lib ks s)) \<noteq> None \<longleftrightarrow> (\<exists>x \<in> set ?xs. Marshal lib (fst x) = Marshal lib key)"
  proof (cases "find ?P (rev ?xs)")
    case None
    then have "\<forall>x \<in> set ?xs. \<not> ?P x" by (auto simp: find_None_iff)
    moreover have "Authorize lib key (snd (Replace lib ks s)) = None"
      by (simp only: Authorize_Replace None option.case)
    ultimately show ?thesis by (simp add: law)
  next
    case (Some x)
    with find_SomeD [OF Some] law [of x] show ?thesis by (auto simp: Authorize_Replace)
  qed
  also have "\<dots> \<longleftrightarrow> (\<exists>k \<in> set (ks_Keys ks). \<exists>pub c. ParseAuthorizedKey lib (key_PublicKey k) = Some (pub, c) \<and>
      Marshal lib pub = Marshal lib key)"
    using set_parsed [of _ lib "ks_Keys ks"] by (metis fst_conv prod.collapse)
  finally show ?thesis .
qed

section \<open>Properties\<close>

text \<open>C2: The store authorises exactly the published keys: after \<open>Replace\<close>, whatever the store held
  before, a client key is accepted if and only if some line of the set parses to a key with the
  same marshalled form.  So the empty set revokes everyone, and an unparsable line authorises nobody.\<close>

theorem authorised_exactly_published:
  assumes "ssh_laws lib"
  shows "Authorize lib key (snd (Replace lib ks s)) \<noteq> None \<longleftrightarrow>
    (\<exists>k \<in> set (ks_Keys ks). \<exists>pub c. ParseAuthorizedKey lib (key_PublicKey k) = Some (pub, c) \<and>
       Marshal lib pub = Marshal lib key)"
  by (rule Authorize_published [OF assms])

definition demo_lib :: "string ssh_lib" where
  "demo_lib = \<lparr>ParseAuthorizedKey = (\<lambda>l. case Split l CHR '' '' of [alg, blob, c] \<Rightarrow> Some (blob, c) | _ \<Rightarrow> None),
     FingerprintSHA256 = (\<lambda>k. ''SHA256:'' @ k), Marshal = (\<lambda>k. k)\<rparr>"

theorem authorised_exactly_published_witness:
  "Authorize demo_lib ''AAAA'' (snd (Replace demo_lib keys_demo NewAuthStore)) \<noteq> None \<and>
   Authorize demo_lib ''BBBB'' (snd (Replace demo_lib keys_demo NewAuthStore)) = None"
proof -
  have laws: "ssh_laws demo_lib" by (simp add: ssh_laws_def demo_lib_def)
  show ?thesis
    using authorised_exactly_published [OF laws, of "''AAAA''" keys_demo NewAuthStore]
      authorised_exactly_published [OF laws, of "''BBBB''" keys_demo NewAuthStore]
    by (simp add: keys_demo_def demo_lib_def)
qed





text \<open>C13: When the string parser of the session loop brings the process down: on a payload of at least
  four bytes whose length prefix is one of the four largest 32-bit numbers, and on no other.  There
  the guard \<^verbatim>\<open>uint32(len(b)) < 4+n\<close> wraps around and the slice \<^verbatim>\<open>b[4:4+n]\<close> is out of order.  A first
  \<open>exec\<close> request with such a payload crashes the session, and with it the agent.\<close>

theorem unmarshalString_panics_iff:
  assumes "length b < 2 ^ 32"
  shows "(unmarshalString b = Panic \<longleftrightarrow> 4 \<le> length b \<and> 2 ^ 32 - 4 \<le> unat (beUint32 (take 4 b))) \<and>
    (unmarshalString b = Panic \<longrightarrow>
      (\<exists>s. handleSession shell environ start (\<lparr>rq_Type = ''exec'', rq_Payload = b, rq_WantReply = w\<rparr> # reqs) new_session
        = Crash s))"
proof
  show "unmarshalString b = Panic \<longleftrightarrow> 4 \<le> length b \<and> 2 ^ 32 - 4 \<le> unat (beUint32 (take 4 b))"
    using unmarshalString_cases [OF assms] by (simp add: Let_def)
  show "unmarshalString b = Panic \<longrightarrow> (\<exists>s. handleSession shell environ start
      (\<lparr>rq_Type = ''exec'', rq_Payload = b, rq_WantReply = w\<rparr> # reqs) new_session = Crash s)"
    by (simp add: session_step_def parseExecReq_def new_session_def)
qed

theorem unmarshalString_panics_iff_witness:
  "unmarshalString [255, 255, 255, 255] = Panic \<and>
   (\<exists>s. handleSession ''/bin/sh'' [] (\<lambda>_. Some 7)
      [\<lparr>rq_Type = ''exec'', rq_Payload = [255, 255, 255, 255], rq_WantReply = True\<rparr>] new_session = Crash s)"
proof -
  have "beUint32 [255, 255, 255, 255] = - 1" by (simp add: beUint32_def)
  then have "unat (beUint32 (take 4 [255, 255, 255, 255])) = 2 ^ 32 - 1" 
    by (simp add: unsigned_minus_1_eq_mask mask_eq_exp_minus_1)
  then show ?thesis using unmarshalString_panics_iff [of "[255, 255, 255, 255]"] by simp
qed

text \<open>Round trip of the SSH string encoding: a string that is length-prefixed as the protocol says is
  read back exactly, with the rest of the payload left over, as long as it is shorter than the four
  lengths above.\<close>

theorem unmarshalString_roundtrip:
  assumes "length s < 2 ^ 32 - 4" and "4 + length s + length rest < 2 ^ 32"
  shows "unmarshalString (be32 (of_nat (length s)) @ bytes_of_string s @ rest) = Ret (s, rest, True)"
proof -
  let ?b = "be32 (of_nat (length s)) @ bytes_of_string s @ rest"
  have len: "length (bytes_of_string s) = length s" by (simp add: bytes_of_string_def)
  have n: "unat (beUint32 (take 4 ?b)) = length s"
    using assms(1) by (simp add: beUint32_be32 unat_of_nat)
  have "length ?b < 2 ^ 32" using assms(2) len by simp
  from unmarshalString_cases [OF this] n assms(1) len show ?thesis by (simp add: Let_def)
qed

theorem unmarshalString_roundtrip_witness:
  "unmarshalString (be32 4 @ bytes_of_string ''TERM'' @ [1, 2]) = Ret (''TERM'', [1, 2], True)"
  using unmarshalString_roundtrip [of "''TERM''" "[1, 2]"] by simp

text \<open>The exit status a client decodes is the child's exit code modulo two to the 32: for the codes
  0 to 255 of a process that exits it is the code itself, and for a child killed by a signal (code
  minus one) it is the largest 32-bit number.\<close>

theorem exit_status_decodes:
  "beUint32 (exit_payload (Some code)) = word_of_int code \<and>
   uint (beUint32 (exit_payload (Some code))) = code mod 2 ^ 32 \<and> length (exit_payload state) = 4"
  by (simp add: exit_payload_def beUint32_be32 uint_word_of_int)

text \<open>The host key is created atomically under every fault: at every moment the key file is what it
  was, or holds one complete freshly generated key.\<close>

theorem hostkey_atomic:
  assumes "abs_file name"
  shows "evolves (\<lambda>m. m (target_file name) = lookup s (target_file name) \<or>
      (\<exists>priv pem a. GenerateKey lib = Some priv \<and> EncodePEM lib priv = Some pem \<and>
         m (target_file name) = Some (Reg a pem)))
    s (snd (LoadOrCreateHostKey lib name s))"
proof -
  let ?I = "\<lambda>m. m (target_file name) = lookup s (target_file name) \<or>
      (\<exists>priv pem a. GenerateKey lib = Some priv \<and> EncodePEM lib priv = Some pem \<and>
         m (target_file name) = Some (Reg a pem))"
  obtain r s1 where read: "os_ReadFile name s = (r, s1)" by force
  have e1: "evolves ?I s s1" using evolves_ReadFile [where I = ?I and name = name and s = s] read by simp
  have "lookup s1 = lookup s"
    using read ReadFile_Inl [of name s _ s1] ReadFile_Inr [OF _ file_paths(1) [OF assms], of s _ s1]
    by (cases r) auto
  then have "evolves ?I s1 (snd (create_hostkey lib name s1))"
    using create_hostkey_run [OF assms, of s1 lib] by simp
  then have "evolves ?I s (snd (create_hostkey lib name s1))" by (rule evolves_trans [OF e1])
  with e1 read show ?thesis
    by (auto simp: LoadOrCreateHostKey_def evolves_refl split: sum.splits)
qed

definition demo_hostkey :: "(nat, nat) hostkey_lib" where
  "demo_hostkey = \<lparr>GenerateKey = Some 3, EncodePEM = (\<lambda>k. Some (replicate k CHR ''k'')), ParsePEM = (\<lambda>p. Some (length p))\<rparr>"

theorem hostkey_atomic_witness:
  "evolves (\<lambda>m. m (target_file ''/var/lib/weft/host_key'') = lookup os_full (target_file ''/var/lib/weft/host_key'') \<or>
      (\<exists>priv pem a. GenerateKey demo_hostkey = Some priv \<and> EncodePEM demo_hostkey priv = Some pem \<and>
         m (target_file ''/var/lib/weft/host_key'') = Some (Reg a pem)))
    os_full (snd (LoadOrCreateHostKey demo_hostkey ''/var/lib/weft/host_key'' os_full))"
proof (rule hostkey_atomic)
  show "abs_file ''/var/lib/weft/host_key''" by code_simp
qed

text \<open>C22: The host key is stable across boots: once \<open>LoadOrCreateHostKey\<close> returned a signer, a later call
  on any healthy file system that still has the file returns the same signer, even though it would
  generate another key, and changes nothing.\<close>

theorem hostkey_stable:
  assumes "abs_file name" and "LoadOrCreateHostKey lib name s = (Inr k, s')"
    and "healthy t" and "lookup t (target_file name) = lookup s' (target_file name)"
    and "ParsePEM lib' = ParsePEM lib"
  shows "LoadOrCreateHostKey lib' name t = (Inr k, tick t)"
proof -
  obtain a pem where "lookup t (target_file name) = Some (Reg a pem)" and "ParsePEM lib pem = Some k"
    using LoadOrCreate_stored [OF assms(1,2)] assms(4) by auto
  moreover have "name \<noteq> []" using assms(1) by (auto simp: abs_file_def HasPrefix_def)
  ultimately show ?thesis
    using ReadFile_healthy [OF assms(3) file_paths(1) [OF assms(1)]] assms(5)
    by (simp add: LoadOrCreateHostKey_def parseHostKey_def)
qed

definition os_keyed :: os where
  "os_keyed = os_demo\<lparr>os_tree := [([], Directory root_attr), ([''k''], Reg root_attr ''kkkkk'')]\<rparr>"

lemma os_keyed_healthy: "healthy os_keyed"
proof -
  have "lookup os_keyed = [[] \<mapsto> Directory root_attr, [''k''] \<mapsto> Reg root_attr ''kkkkk'']"
    by (auto simp: os_keyed_def)
  then show ?thesis
    by (auto simp: healthy_def calm_def wf_map_def os_keyed_def os_demo_def append_eq_Cons_conv split: if_splits)
qed

theorem hostkey_stable_witness:
  "LoadOrCreateHostKey (demo_hostkey\<lparr>GenerateKey := Some 9\<rparr>) ''/k'' os_keyed = (Inr 5, tick os_keyed)"
proof -
  have abs: "abs_file ''/k''" and path: "kpath ''/k'' = Inr [''k'']" by code_simp+
  have "os_ReadFile ''/k'' os_keyed = (Inr ''kkkkk'', tick os_keyed)"
    by (rule ReadFile_healthy [OF os_keyed_healthy path, of root_attr]) (simp add: os_keyed_def)
  then have "LoadOrCreateHostKey demo_hostkey ''/k'' os_keyed = (Inr 5, tick os_keyed)"
    by (simp add: LoadOrCreateHostKey_def parseHostKey_def demo_hostkey_def)
  then show ?thesis by (rule hostkey_stable [OF abs _ os_keyed_healthy]) simp_all
qed

end
