(* ===== verification/Shell_Pump.thy ===== *)
theory Shell_Pump
  imports Sshd "HOL-Library.Sublist"
begin

text \<open>
  The rest of \<open>pkg/sshd/server.go\<close>: \<open>NewServer\<close> and \<open>config\<close>, and the three goroutines of \<open>startShell\<close> that move bytes
  between a channel and the terminal of a child and report how the child ended.  The goroutines are
  a step relation; its parameter is the set of things the client may do.
\<close>

section \<open>Construction\<close>

text \<open>The authorisation store is held by reference (type \<open>'r\<close>), because \<open>Replace\<close> changes it while the server runs.  The
  logger is left out.\<close>

datatype server_error = NilAuthStore | NilHostKey

record ('r, 's) Server =
  sv_AuthStore :: 'r
  sv_HostKey :: 's
  sv_Shell :: string

definition NewServer :: "'r option \<Rightarrow> 's option \<Rightarrow> string \<Rightarrow> server_error + ('r, 's) Server" where
  "NewServer store hostKey shell = (case store of
       None \<Rightarrow> Inl NilAuthStore
     | Some st \<Rightarrow> (case hostKey of
         None \<Rightarrow> Inl NilHostKey
       | Some hk \<Rightarrow> Inr \<lparr>sv_AuthStore = st, sv_HostKey = hk, sv_Shell = (if shell = [] then ''/bin/sh'' else shell)\<rparr>))"

text \<open>The callback reads the store when a client authenticates: its first argument is the memory at that time.\<close>

record ('k, 'r, 's) ServerConfig =
  sc_PublicKeyCallback :: "('r \<Rightarrow> 'k AuthStore) \<Rightarrow> 'k \<Rightarrow> (string \<times> string) list option"
  sc_ServerVersion :: string
  sc_hostKeys :: "'s list"

definition config :: "'k ssh_lib \<Rightarrow> ('r, 's) Server \<Rightarrow> ('k, 'r, 's) ServerConfig" where
  "config lib s = \<lparr>sc_PublicKeyCallback = (\<lambda>mem key. PublicKeyCallback lib (mem (sv_AuthStore s)) key),
     sc_ServerVersion = ''SSH-2.0-weft-microvm-agent'', sc_hostKeys = [sv_HostKey s]\<rparr>"

section \<open>The goroutines\<close>

text \<open>\<open>sp_in\<close> and \<open>sp_out\<close> say which copy is running, \<open>sp_done\<close> is the number of tokens in the channel \<open>done\<close>, \<open>sp_phase\<close> is how far
  the third goroutine has come.  \<open>sp_pending\<close> is output the terminal holds, \<open>sp_sent\<close> what the client has been
  sent, \<open>sp_status\<close> the payloads of the \<^verbatim>\<open>exit-status\<close> requests; \<open>sp_written\<close> is a ghost, all that was written to the
  terminal.\<close>

datatype phase = WaitFirst | WaitSecond | Reaping | Finished

record shell_io =
  sp_in :: bool
  sp_out :: bool
  sp_done :: nat
  sp_phase :: phase
  sp_pty :: bool
  sp_child :: "int option"
  sp_pending :: string
  sp_sent :: string
  sp_status :: "byte list list"
  sp_written :: string

definition shell_io_init :: shell_io where
  "shell_io_init = \<lparr>sp_in = True, sp_out = True, sp_done = 0, sp_phase = WaitFirst, sp_pty = True, sp_child = None,
     sp_pending = [], sp_sent = [], sp_status = [], sp_written = []\<rparr>"

datatype client = EndsInput | Types | Leaves

text \<open>The copy to the terminal reads from the client.  It ends when the client closes its input or is gone,
  or when there is data to write and the terminal is closed.  The copy from the terminal ends when
  the terminal is closed, when the child has ended and nothing is left to read, or when the client is
  gone; in the last case a chunk it has read is lost.\<close>

inductive shell_step :: "client set \<Rightarrow> shell_io \<Rightarrow> shell_io \<Rightarrow> bool" for cs where
  term_write: "sp_pty s \<Longrightarrow> shell_step cs s (s\<lparr>sp_pending := sp_pending s @ t, sp_written := sp_written s @ t\<rparr>)"
| child_exit: "sp_child s = None \<Longrightarrow> shell_step cs s (s\<lparr>sp_child := Some code\<rparr>)"
| copy_out: "sp_out s \<Longrightarrow> sp_pty s \<Longrightarrow> sp_pending s = t @ rest \<Longrightarrow>
    shell_step cs s (s\<lparr>sp_pending := rest, sp_sent := sp_sent s @ t\<rparr>)"
| out_end: "sp_out s \<Longrightarrow> \<not> sp_pty s \<or> sp_child s \<noteq> None \<and> sp_pending s = [] \<Longrightarrow>
    shell_step cs s (s\<lparr>sp_out := False, sp_done := Suc (sp_done s)\<rparr>)"
| out_broken: "Leaves \<in> cs \<Longrightarrow> sp_out s \<Longrightarrow> sp_pending s = t @ rest \<Longrightarrow>
    shell_step cs s (s\<lparr>sp_out := False, sp_done := Suc (sp_done s), sp_pending := rest\<rparr>)"
| in_end: "EndsInput \<in> cs \<or> Leaves \<in> cs \<or> Types \<in> cs \<and> \<not> sp_pty s \<Longrightarrow> sp_in s \<Longrightarrow>
    shell_step cs s (s\<lparr>sp_in := False, sp_done := Suc (sp_done s)\<rparr>)"
| first_done: "sp_phase s = WaitFirst \<Longrightarrow> sp_done s = Suc n \<Longrightarrow>
    shell_step cs s (s\<lparr>sp_done := n, sp_pty := False, sp_phase := WaitSecond\<rparr>)"
| second_done: "sp_phase s = WaitSecond \<Longrightarrow> sp_done s = Suc n \<Longrightarrow>
    shell_step cs s (s\<lparr>sp_done := n, sp_phase := Reaping\<rparr>)"
| reap: "sp_phase s = Reaping \<Longrightarrow> state = None \<or> sp_child s \<noteq> None \<and> state = sp_child s \<Longrightarrow>
    shell_step cs s (s\<lparr>sp_phase := Finished, sp_status := sp_status s @ [exit_payload state]\<rparr>)"

inductive_cases shell_stepE: "shell_step cs s s'"

inductive shell_reachable :: "client set \<Rightarrow> shell_io \<Rightarrow> bool" for cs where
  shell_start: "shell_reachable cs shell_io_init"
| shell_more: "shell_reachable cs s \<Longrightarrow> shell_step cs s s' \<Longrightarrow> shell_reachable cs s'"

section \<open>Lemmas\<close>

text \<open>A configuration built once sees every later change of the store.\<close>

lemma config_sees_Replace:
  assumes "NewServer (Some r) hk shell = Inr sv"
  shows "sc_PublicKeyCallback (config lib sv) (mem(r := snd (Replace lib ks (mem r)))) key =
    PublicKeyCallback lib (snd (Replace lib ks (mem r))) key"
  using assms by (auto simp: NewServer_def config_def split: option.splits)

lemma NewServer_total:
  "(\<exists>sv. NewServer store hk shell = Inr sv \<and> sv_Shell sv \<noteq> []) \<longleftrightarrow> store \<noteq> None \<and> hk \<noteq> None"
  by (auto simp: NewServer_def split: option.splits)

text \<open>The tokens: each copy gives one when it ends, the third goroutine takes one per phase.\<close>

fun taken :: "phase \<Rightarrow> nat" where
  "taken WaitFirst = 0"
| "taken WaitSecond = 1"
| "taken Reaping = 2"
| "taken Finished = 2"

definition shell_inv :: "client set \<Rightarrow> shell_io \<Rightarrow> bool" where
  "shell_inv cs s \<longleftrightarrow>
     sp_done s + taken (sp_phase s) + of_bool (sp_in s) + of_bool (sp_out s) = 2 \<and>
     sp_pty s = (sp_phase s = WaitFirst) \<and>
     (sp_out s \<longrightarrow> sp_written s = sp_sent s @ sp_pending s) \<and> prefix (sp_sent s) (sp_written s) \<and>
     (if sp_phase s = Finished then sp_status s \<in> {[exit_payload None], [exit_payload (sp_child s)]} else sp_status s = []) \<and>
     (cs = {} \<longrightarrow> sp_in s)"

lemma shell_inv_init: "shell_inv cs shell_io_init"
  by (simp add: shell_inv_def shell_io_init_def)

lemma shell_inv_step:
  assumes "shell_step cs s s'" and "shell_inv cs s"
  shows "shell_inv cs s'"
  using assms by (cases rule: shell_step.cases) (auto simp: shell_inv_def split: if_splits)

lemma shell_reachable_inv: "shell_reachable cs s \<Longrightarrow> shell_inv cs s"
  by (induction rule: shell_reachable.induct) (auto intro: shell_inv_init shell_inv_step)

lemma finished_copies_ended: "shell_inv cs s \<Longrightarrow> sp_status s \<noteq> [] \<Longrightarrow> \<not> sp_in s \<and> \<not> sp_out s"
  by (auto simp: shell_inv_def split: if_splits)

lemma status_once: "shell_inv cs s \<Longrightarrow> length (sp_status s) \<le> 1"
  by (auto simp: shell_inv_def split: if_splits)

text \<open>The states of two short sessions in which the child prints \<open>ok\<close> and exits with code 0.\<close>

definition shell_printed :: shell_io where
  "shell_printed = shell_io_init\<lparr>sp_pending := ''ok'', sp_written := ''ok'', sp_child := Some 0\<rparr>"

definition shell_silent :: shell_io where
  "shell_silent = shell_io_init\<lparr>sp_out := False, sp_pty := False, sp_phase := WaitSecond, sp_sent := ''ok'', sp_written := ''ok'',
     sp_child := Some 0\<rparr>"

definition shell_cut :: shell_io where
  "shell_cut = shell_printed\<lparr>sp_in := False, sp_out := False, sp_pty := False, sp_phase := Finished,
     sp_status := [exit_payload (Some 0)]\<rparr>"

lemma shell_printed_reachable: "shell_reachable cs shell_printed"
proof -
  have "shell_reachable cs (shell_io_init\<lparr>sp_pending := ''ok'', sp_written := ''ok''\<rparr>)"
    using shell_more [OF shell_start term_write [of shell_io_init cs "''ok''"]] by (simp add: shell_io_init_def)
  from shell_more [OF this child_exit [of _ cs 0]] show ?thesis
    by (simp add: shell_io_init_def shell_printed_def)
qed

lemma shell_silent_reachable: "shell_reachable cs shell_silent"
proof -
  have "shell_reachable cs (shell_printed\<lparr>sp_pending := [], sp_sent := ''ok''\<rparr>)"
    using shell_more [OF shell_printed_reachable copy_out [of shell_printed "''ok''" "[]" cs]]
    by (simp add: shell_io_init_def shell_printed_def)
  from shell_more [OF this out_end] have "shell_reachable cs (shell_printed\<lparr>sp_pending := [], sp_sent := ''ok'', sp_out := False, sp_done := 1\<rparr>)"
    by (simp add: shell_io_init_def shell_printed_def)
  from shell_more [OF this first_done [of _ 0]] show ?thesis
    by (simp add: shell_io_init_def shell_printed_def shell_silent_def)
qed

lemma shell_silent_stuck: "\<not> shell_step {} shell_silent s'"
  by (auto simp: shell_silent_def shell_io_init_def elim!: shell_stepE)

lemma shell_cut_reachable: "shell_reachable {EndsInput} shell_cut"
proof -
  have "shell_reachable {EndsInput} (shell_printed\<lparr>sp_in := False, sp_done := 1\<rparr>)"
    using shell_more [OF shell_printed_reachable in_end [of "{EndsInput}" shell_printed]] by (simp add: shell_io_init_def shell_printed_def)
  from shell_more [OF this first_done [of _ 0]]
  have "shell_reachable {EndsInput} (shell_printed\<lparr>sp_in := False, sp_pty := False, sp_phase := WaitSecond\<rparr>)"
    by (simp add: shell_io_init_def shell_printed_def)
  from shell_more [OF this out_end]
  have "shell_reachable {EndsInput} (shell_printed\<lparr>sp_in := False, sp_out := False, sp_done := 1, sp_pty := False, sp_phase := WaitSecond\<rparr>)"
    by (simp add: shell_io_init_def shell_printed_def)
  from shell_more [OF this second_done [of _ 0]]
  have "shell_reachable {EndsInput} (shell_printed\<lparr>sp_in := False, sp_out := False, sp_pty := False, sp_phase := Reaping\<rparr>)"
    by (simp add: shell_io_init_def shell_printed_def)
  from shell_more [OF this reap [of _ "Some 0"]] show ?thesis
    by (simp add: shell_io_init_def shell_printed_def shell_cut_def)
qed

section \<open>Properties\<close>

text \<open>C20: Under every interleaving of the goroutines of a session the client is sent a prefix of what was
  written to the terminal, and at most one exit status, after both copies have ended; it is the
  status of the child, or 0 if waiting failed.  So it also needs the client: while a client does nothing, the
  copy from it goes on and no exit status is sent.\<close>

theorem exit_status_waits_for_client:
  assumes "shell_reachable cs s"
  shows "prefix (sp_sent s) (sp_written s) \<and> length (sp_status s) \<le> 1 \<and>
    set (sp_status s) \<subseteq> {exit_payload None, exit_payload (sp_child s)} \<and>
    (sp_status s \<noteq> [] \<longrightarrow> \<not> sp_in s \<and> \<not> sp_out s) \<and>
    (cs = {} \<longrightarrow> sp_in s \<and> sp_status s = [])"
proof -
  have inv: "shell_inv cs s" using assms by (rule shell_reachable_inv)
  then show ?thesis
    using finished_copies_ended [OF inv] status_once [OF inv] by (auto simp: shell_inv_def split: if_splits)
qed

text \<open>The state after the child has exited and all its output has been sent: a silent client leaves it there.\<close>

theorem exit_status_waits_for_client_witness:
  "shell_reachable {} shell_silent \<and> sp_child shell_silent = Some 0 \<and> sp_sent shell_silent = ''ok'' \<and>
   sp_in shell_silent \<and> sp_status shell_silent = [] \<and> \<not> (\<exists>s'. shell_step {} shell_silent s')"
  using exit_status_waits_for_client [OF shell_silent_reachable [of "{}"]] shell_silent_reachable [of "{}"] shell_silent_stuck
  by (simp add: shell_silent_def)


end
