(* ===== verification/Execsession.thy ===== *)
theory Execsession
  imports Go_Json Go_Path Go_Bytes
begin


text \<open>
  Package \<open>execsession\<close>: the requests that open a shell or a \<^verbatim>\<open>crun exec\<close>, the registry of live
  sessions, the pump that carries one session, and the subscriber that ties them together.

  A \<open>context.CancelFunc\<close> is a number, and an operation of the registry returns the numbers it
  cancels.  The subscriber and the pump run several goroutines; they are step relations, one rule
  per atomic action, so that the theorems hold for every interleaving.
\<close>

section \<open>Requests\<close>

record ExecTarget =
  et_Kind :: string
  et_Container :: string
  et_Command :: "string list"
  et_Args :: "string list"
  et_Env :: "(string \<times> string) list"
  et_WorkDir :: string

record ExecRequest =
  er_ID :: string
  er_Target :: ExecTarget
  er_InitialCols :: u16
  er_InitialRows :: u16

datatype exec_error = DecodeExec | IDRequired | ContainerRequired | CommandRequired | InvalidKind string
  | UnknownKind string | PtyStart | SubscribeIn

definition SubjectOpen :: "string \<Rightarrow> string" where
  "SubjectOpen vmID = ''weft.exec.'' @ vmID @ ''.open''"

definition SubjectIn :: "string \<Rightarrow> string \<Rightarrow> string" where
  "SubjectIn vmID sid = ''weft.exec.'' @ vmID @ ''.'' @ sid @ ''.in''"

definition SubjectOut :: "string \<Rightarrow> string \<Rightarrow> string" where
  "SubjectOut vmID sid = ''weft.exec.'' @ vmID @ ''.'' @ sid @ ''.out''"

definition ExecTarget_zero :: ExecTarget where
  "ExecTarget_zero = \<lparr>et_Kind = [], et_Container = [], et_Command = [], et_Args = [], et_Env = [], et_WorkDir = []\<rparr>"

definition ExecRequest_zero :: ExecRequest where
  "ExecRequest_zero = \<lparr>er_ID = [], er_Target = ExecTarget_zero, er_InitialCols = 0, er_InitialRows = 0\<rparr>"

definition dec_ExecTarget :: "ExecTarget into" where
  "dec_ExecTarget = dec_struct [''kind'', ''container'', ''command'', ''args'', ''env'', ''work_dir'']
     (\<lambda>n j r. if n = ''kind'' then map_option (\<lambda>v. r\<lparr>et_Kind := v\<rparr>) (dec_string j (et_Kind r))
       else if n = ''container'' then map_option (\<lambda>v. r\<lparr>et_Container := v\<rparr>) (dec_string j (et_Container r))
       else if n = ''command'' then map_option (\<lambda>v. r\<lparr>et_Command := v\<rparr>) (dec_list dec_string [] j (et_Command r))
       else if n = ''args'' then map_option (\<lambda>v. r\<lparr>et_Args := v\<rparr>) (dec_list dec_string [] j (et_Args r))
       else if n = ''env'' then map_option (\<lambda>v. r\<lparr>et_Env := v\<rparr>) (dec_map dec_string [] j (et_Env r))
       else map_option (\<lambda>v. r\<lparr>et_WorkDir := v\<rparr>) (dec_string j (et_WorkDir r)))"

definition dec_ExecRequest :: "ExecRequest into" where
  "dec_ExecRequest = dec_struct [''id'', ''target'', ''cols'', ''rows'']
     (\<lambda>n j r. if n = ''id'' then map_option (\<lambda>v. r\<lparr>er_ID := v\<rparr>) (dec_string j (er_ID r))
       else if n = ''target'' then map_option (\<lambda>v. r\<lparr>er_Target := v\<rparr>) (dec_ExecTarget j (er_Target r))
       else if n = ''cols'' then map_option (\<lambda>v. r\<lparr>er_InitialCols := v\<rparr>) (dec_uint16 j (er_InitialCols r))
       else map_option (\<lambda>v. r\<lparr>er_InitialRows := v\<rparr>) (dec_uint16 j (er_InitialRows r)))"

definition ExecRequest_Validate :: "ExecRequest \<Rightarrow> exec_error err" where
  "ExecRequest_Validate r =
     (if er_ID r = [] then Some IDRequired
      else if et_Kind (er_Target r) = ''shell'' then None
      else if et_Kind (er_Target r) = ''exec'' then
        (if et_Container (er_Target r) = [] then Some ContainerRequired
         else if et_Command (er_Target r) = [] then Some CommandRequired
         else None)
      else Some (InvalidKind (et_Kind (er_Target r))))"

definition DecodeRequest :: "string \<Rightarrow> exec_error + ExecRequest" where
  "DecodeRequest data = (case Unmarshal dec_ExecRequest ExecRequest_zero data of
       None \<Rightarrow> Inl DecodeExec
     | Some r \<Rightarrow> (case ExecRequest_Validate r of Some e \<Rightarrow> Inl e | None \<Rightarrow> Inr r))"

section \<open>The registry\<close>

record Sessions =
  live :: "string \<rightharpoonup> nat"

definition NewSessions :: Sessions where
  "NewSessions = \<lparr>live = Map.empty\<rparr>"

definition Sessions_Open :: "string \<Rightarrow> nat \<Rightarrow> Sessions \<Rightarrow> nat set \<times> Sessions" where
  "Sessions_Open sid cancel s = (set_option (live s sid), s\<lparr>live := (live s)(sid \<mapsto> cancel)\<rparr>)"

definition Sessions_Close :: "string \<Rightarrow> Sessions \<Rightarrow> nat set \<times> Sessions" where
  "Sessions_Close sid s = (case live s sid of
       None \<Rightarrow> ({}, s)
     | Some c \<Rightarrow> ({c}, s\<lparr>live := (live s)(sid := None)\<rparr>))"

definition Sessions_CloseAll :: "Sessions \<Rightarrow> nat set \<times> Sessions" where
  "Sessions_CloseAll s = (ran (live s), s\<lparr>live := Map.empty\<rparr>)"

section \<open>The subscriber\<close>

text \<open>\<open>running\<close> are the goroutines that are in \<open>Run\<close>, by their cancel function, each with the id of its
  request; \<open>cancelled\<close> are the contexts that have been cancelled.\<close>

record exec_sys =
  es_reg :: Sessions
  es_running :: "nat \<rightharpoonup> string"
  es_cancelled :: "nat set"
  es_next :: nat

definition exec_init :: exec_sys where
  "exec_init = \<lparr>es_reg = NewSessions, es_running = Map.empty, es_cancelled = {}, es_next = 0\<rparr>"

text \<open>The callback of the open subject: a request that does not decode is logged and dropped.\<close>

definition exec_open :: "string \<Rightarrow> exec_sys \<Rightarrow> exec_sys" where
  "exec_open data s = (case DecodeRequest data of
       Inl _ \<Rightarrow> s
     | Inr req \<Rightarrow> (case Sessions_Open (er_ID req) (es_next s) (es_reg s) of (cs, reg) \<Rightarrow>
         s\<lparr>es_reg := reg, es_cancelled := es_cancelled s \<union> cs, es_next := Suc (es_next s),
           es_running := (es_running s)(es_next s \<mapsto> er_ID req)\<rparr>))"

text \<open>The end of the goroutine: \<open>Run\<close> has returned, the deferred \<open>Close\<close> runs.\<close>

definition exec_finish :: "nat \<Rightarrow> exec_sys \<Rightarrow> exec_sys" where
  "exec_finish t s = (case es_running s t of
       None \<Rightarrow> s
     | Some sid \<Rightarrow> (case Sessions_Close sid (es_reg s) of (cs, reg) \<Rightarrow>
         s\<lparr>es_reg := reg, es_cancelled := es_cancelled s \<union> cs, es_running := (es_running s)(t := None)\<rparr>))"

definition exec_stop :: "exec_sys \<Rightarrow> exec_sys" where
  "exec_stop s = (case Sessions_CloseAll (es_reg s) of (cs, reg) \<Rightarrow>
     s\<lparr>es_reg := reg, es_cancelled := es_cancelled s \<union> cs\<rparr>)"

inductive exec_step :: "exec_sys \<Rightarrow> exec_sys \<Rightarrow> bool" where
  step_open: "exec_step s (exec_open data s)"
| step_finish: "es_running s t \<noteq> None \<Longrightarrow> exec_step s (exec_finish t s)"

inductive exec_reachable :: "exec_sys \<Rightarrow> bool" where
  exec_start: "exec_reachable exec_init"
| exec_next: "exec_reachable s \<Longrightarrow> exec_step s s' \<Longrightarrow> exec_reachable s'"

section \<open>The command of a session\<close>

record command =
  cmd_argv :: "string list"
  cmd_env :: "string list"
  cmd_dir :: string

text \<open>The loop of \<open>workDir\<close> over its candidates.\<close>

fun first_dir :: "string list \<Rightarrow> os \<Rightarrow> string \<times> os" where
  "first_dir [] s = (''/'', s)"
| "first_dir (c # cs) s =
     (if c = [] then first_dir cs s
      else case os_Stat c s of
        (Inr n, s1) \<Rightarrow> if is_dir n then (c, s1) else first_dir cs s1
      | (Inl _, s1) \<Rightarrow> first_dir cs s1)"

definition workDir :: "string \<Rightarrow> os \<Rightarrow> string \<times> os" where
  "workDir d s = first_dir [d, ''/workspace'', ''/tmp'', ''/''] s"

fun first_shell :: "string list \<Rightarrow> os \<Rightarrow> string \<times> os" where
  "first_shell [] s = (''/bin/sh'', s)"
| "first_shell (c # cs) s = (case os_Stat c s of
       (Inr n, s1) \<Rightarrow> (c, s1)
     | (Inl _, s1) \<Rightarrow> first_shell cs s1)"

definition pickShell :: "string list \<Rightarrow> os \<Rightarrow> string \<times> os" where
  "pickShell command s = (case command of
       c # _ \<Rightarrow> (c, s)
     | [] \<Rightarrow> first_shell [''/bin/bash'', ''/bin/ash'', ''/bin/sh''] s)"

text \<open>\<open>ord\<close> is the order in which the environment map is visited.\<close>

definition mergeEnv :: "(string \<times> string) list \<Rightarrow> string list \<Rightarrow> string list" where
  "mergeEnv extra ord =
     [''PATH=/usr/local/sbin:/usr/local/bin:/usr/sbin:/usr/bin:/sbin:/bin'', ''TERM=xterm-256color'',
      ''COLORTERM=truecolor'', ''HOME=/root'', ''LANG=C.UTF-8'']
     @ map (\<lambda>k. k @ ''='' @ the (map_of extra k)) ord"

definition buildCommand :: "string list \<Rightarrow> ExecTarget \<Rightarrow> os \<Rightarrow> (exec_error + command) \<times> os" where
  "buildCommand ord t s =
     (if et_Kind t = ''shell'' then
        (case pickShell (et_Command t) s of (shell, s1) \<Rightarrow>
           let args = (if 1 < length (et_Command t) then tl (et_Command t) @ et_Args t else et_Args t)
           in case workDir (et_WorkDir t) s1 of (d, s2) \<Rightarrow>
             (Inr \<lparr>cmd_argv = shell # args, cmd_env = mergeEnv (et_Env t) ord, cmd_dir = d\<rparr>, s2))
      else if et_Kind t = ''exec'' then
        (case workDir (et_WorkDir t) s of (d, s1) \<Rightarrow>
           (Inr \<lparr>cmd_argv = [''crun'', ''exec'', et_Container t] @ et_Command t @ et_Args t,
                 cmd_env = mergeEnv (et_Env t) ord, cmd_dir = d\<rparr>, s1))
      else (Inl (UnknownKind (et_Kind t)), s))"

section \<open>Frames\<close>

datatype in_action = Stdin "byte list" | Resize u16 u16 | KillChild | NoAction

text \<open>The handler of the in subject.\<close>

definition handle_in :: "byte list \<Rightarrow> in_action" where
  "handle_in d = (case d of
       [] \<Rightarrow> NoAction
     | tag # rest \<Rightarrow>
         if tag = byte_of_char CHR ''i'' then Stdin rest
         else if tag = byte_of_char CHR ''r'' then
           (if 5 \<le> length d then Resize (beUint16 (take 2 (drop 1 d))) (beUint16 (take 2 (drop 3 d))) else NoAction)
         else if tag = byte_of_char CHR ''x'' then KillChild
         else NoAction)"

definition out_frame :: "byte list \<Rightarrow> byte list" where
  "out_frame chunk = byte_of_char CHR ''o'' # chunk"

text \<open>\<open>state\<close> is \<open>cmd.ProcessState\<close>: nil, or the exit code, minus one after a signal.\<close>

definition exit_frame :: "int option \<Rightarrow> byte list" where
  "exit_frame state = byte_of_char CHR ''e'' # be32 (case state of None \<Rightarrow> 0 | Some code \<Rightarrow> word_of_int code)"

text \<open>The reading goroutine: chunks as \<open>ptmx.Read\<close> returns them, each with whether it came with an
  error; a chunk read along with the error is still published.\<close>

fun pump_out :: "(byte list \<times> bool) list \<Rightarrow> byte list list" where
  "pump_out [] = []"
| "pump_out ((chunk, failed) # rs) =
     (if chunk \<noteq> [] then [out_frame chunk] else []) @ (if failed then [] else pump_out rs)"

section \<open>One run of the pump\<close>

datatype run_event = Started command | InitialSize u16 u16 | Killed | PtyClosed | Published "byte list"

text \<open>\<open>Run\<close> as its own goroutine sees it.  The outcomes of its surroundings are arguments: whether the
  child could be started on a PTY, whether the subscription succeeded, whether the context was
  cancelled before the child exited, and the process state at the end.\<close>

definition Run_exec :: "string list \<Rightarrow> ExecRequest \<Rightarrow> (command \<Rightarrow> bool) \<Rightarrow> bool \<Rightarrow> bool \<Rightarrow> int option \<Rightarrow> os \<Rightarrow>
    exec_error err \<times> run_event list \<times> os" where
  "Run_exec ord req pty_start subscribe ctx_done state s =
     (case buildCommand ord (er_Target req) s of
        (Inl e, s1) \<Rightarrow> (Some e, [], s1)
      | (Inr cmd, s1) \<Rightarrow>
          if \<not> pty_start cmd then (Some PtyStart, [], s1)
          else
            let size = (if 0 < er_InitialCols req \<and> 0 < er_InitialRows req
                        then [InitialSize (er_InitialCols req) (er_InitialRows req)] else [])
            in if \<not> subscribe then (Some SubscribeIn, [Started cmd] @ size @ [Killed, PtyClosed], s1)
               else (None, [Started cmd] @ size @ (if ctx_done then [Killed] else [])
                       @ [Published (exit_frame state), PtyClosed], s1))"

text \<open>\<open>Run\<close> and its reading goroutine side by side.  \<open>pu_written\<close> is what the child has written,
  \<open>pu_pending\<close> what of it is still in the terminal.\<close>

datatype main_pc = Waiting | ExitSent | Closed

record pump =
  pu_written :: "byte list list"
  pu_pending :: "byte list list"
  pu_exit :: "int option"
  pu_out :: "byte list list"
  pu_main :: main_pc
  pu_reader :: bool

definition pump_init :: pump where
  "pump_init = \<lparr>pu_written = [], pu_pending = [], pu_exit = None, pu_out = [], pu_main = Waiting, pu_reader = True\<rparr>"

inductive pump_step :: "pump \<Rightarrow> pump \<Rightarrow> bool" where
  child_writes: "pu_exit p = None \<Longrightarrow> chunk \<noteq> [] \<Longrightarrow>
    pump_step p (p\<lparr>pu_written := pu_written p @ [chunk], pu_pending := pu_pending p @ [chunk]\<rparr>)"
| child_exits: "pu_exit p = None \<Longrightarrow> pump_step p (p\<lparr>pu_exit := Some code\<rparr>)"
| reader_reads: "pu_reader p \<Longrightarrow> pu_main p \<noteq> Closed \<Longrightarrow> pu_pending p = chunk # rest \<Longrightarrow>
    pump_step p (p\<lparr>pu_pending := rest, pu_out := pu_out p @ [out_frame chunk]\<rparr>)"
| reader_ends: "pu_reader p \<Longrightarrow> (pu_pending p = [] \<and> pu_exit p \<noteq> None) \<or> pu_main p = Closed \<Longrightarrow>
    pump_step p (p\<lparr>pu_reader := False\<rparr>)"
| sends_exit: "pu_main p = Waiting \<Longrightarrow> pu_exit p = Some code \<Longrightarrow>
    pump_step p (p\<lparr>pu_out := pu_out p @ [exit_frame (Some code)], pu_main := ExitSent\<rparr>)"
| closes: "pu_main p = ExitSent \<Longrightarrow> pump_step p (p\<lparr>pu_main := Closed\<rparr>)"

inductive pump_reachable :: "pump \<Rightarrow> bool" where
  pump_start: "pump_reachable pump_init"
| pump_next: "pump_reachable p \<Longrightarrow> pump_step p p' \<Longrightarrow> pump_reachable p'"

section \<open>Lemmas\<close>

lemma DecodeRequest_Inr:
  "DecodeRequest data = Inr r \<Longrightarrow> ExecRequest_Validate r = None"
  by (auto simp: DecodeRequest_def split: option.splits)

lemma ExecRequest_Validate_None:
  "ExecRequest_Validate r = None \<longleftrightarrow> er_ID r \<noteq> [] \<and> (et_Kind (er_Target r) = ''shell'' \<or>
     (et_Kind (er_Target r) = ''exec'' \<and> et_Container (er_Target r) \<noteq> [] \<and> et_Command (er_Target r) \<noteq> []))"
  by (auto simp: ExecRequest_Validate_def)

subsection \<open>Sessions\<close>

text \<open>Registered sessions run and are not cancelled, and a session that runs uncancelled is registered
  under its id.\<close>

definition exec_inv :: "exec_sys \<Rightarrow> bool" where
  "exec_inv s \<longleftrightarrow>
     (\<forall>sid t. live (es_reg s) sid = Some t \<longrightarrow> es_running s t = Some sid \<and> t \<notin> es_cancelled s) \<and>
     (\<forall>t sid. es_running s t = Some sid \<longrightarrow> t < es_next s \<and> (t \<notin> es_cancelled s \<longrightarrow> live (es_reg s) sid = Some t)) \<and>
     (\<forall>t \<in> es_cancelled s. t < es_next s)"

lemma exec_invI:
  assumes "\<And>sid t. live (es_reg s) sid = Some t \<Longrightarrow> es_running s t = Some sid \<and> t \<notin> es_cancelled s"
    and "\<And>t sid. es_running s t = Some sid \<Longrightarrow> t < es_next s"
    and "\<And>t sid. es_running s t = Some sid \<Longrightarrow> t \<notin> es_cancelled s \<Longrightarrow> live (es_reg s) sid = Some t"
    and "\<And>t. t \<in> es_cancelled s \<Longrightarrow> t < es_next s"
  shows "exec_inv s"
  unfolding exec_inv_def by (intro conjI allI impI ballI; (erule assms | drule assms(1), blast))

lemma exec_invD:
  assumes "exec_inv s"
  shows "live (es_reg s) sid = Some t \<Longrightarrow> es_running s t = Some sid"
    and "live (es_reg s) sid = Some t \<Longrightarrow> t \<notin> es_cancelled s"
    and "es_running s t = Some sid \<Longrightarrow> t < es_next s"
    and "es_running s t = Some sid \<Longrightarrow> t \<notin> es_cancelled s \<Longrightarrow> live (es_reg s) sid = Some t"
    and "t \<in> es_cancelled s \<Longrightarrow> t < es_next s"
  using assms unfolding exec_inv_def by blast+

lemma exec_inv_init: "exec_inv exec_init"
  by (simp add: exec_inv_def exec_init_def NewSessions_def)

lemma exec_inv_open:
  assumes inv: "exec_inv s"
  shows "exec_inv (exec_open data s)"
proof (cases "DecodeRequest data")
  case (Inl e)
  with assms show ?thesis by (simp add: exec_open_def)
next
  case (Inr req)
  note D = exec_invD [OF inv]
  let ?s = "exec_open data s" and ?n = "es_next s" and ?id = "er_ID req"
  have new: "live (es_reg ?s) = (live (es_reg s))(?id \<mapsto> ?n)" "es_running ?s = (es_running s)(?n \<mapsto> ?id)"
    "es_cancelled ?s = es_cancelled s \<union> set_option (live (es_reg s) ?id)" "es_next ?s = Suc ?n"
    using Inr by (simp_all add: exec_open_def Sessions_Open_def)
  have old: "t < ?n" if "live (es_reg s) sid = Some t" for sid t using D(1,3) that by blast
  show ?thesis
  proof (rule exec_invI, unfold new)
    show "((es_running s)(?n \<mapsto> ?id)) t = Some sid \<and> t \<notin> es_cancelled s \<union> set_option (live (es_reg s) ?id)"
      if "((live (es_reg s))(?id \<mapsto> ?n)) sid = Some t" for sid t
    proof (cases "sid = ?id")
      case True
      with that D(5) [of ?n] old [of ?id ?n] show ?thesis by auto
    next
      case False
      with that have t: "live (es_reg s) sid = Some t" by simp
      with D(1) [OF t] D(2) [OF t] D(1) [of ?id t] old [OF t] False show ?thesis by auto
    qed
    show "t < Suc ?n" if "((es_running s)(?n \<mapsto> ?id)) t = Some sid" for t sid
      using that D(3) [of t sid] by (auto split: if_splits)
    show "((live (es_reg s))(?id \<mapsto> ?n)) sid = Some t"
      if "((es_running s)(?n \<mapsto> ?id)) t = Some sid" "t \<notin> es_cancelled s \<union> set_option (live (es_reg s) ?id)" for t sid
      using that D(4) [of t sid] by (auto split: if_splits)
    show "t < Suc ?n" if "t \<in> es_cancelled s \<union> set_option (live (es_reg s) ?id)" for t
      using that D(5) [of t] old [of ?id t] by auto
  qed
qed

lemma exec_inv_finish:
  assumes inv: "exec_inv s" and run: "es_running s t0 = Some id0"
  shows "exec_inv (exec_finish t0 s)"
proof -
  note D = exec_invD [OF inv]
  let ?s = "exec_finish t0 s"
  have new: "live (es_reg ?s) = (live (es_reg s))(id0 := None)" "es_running ?s = (es_running s)(t0 := None)"
    "es_cancelled ?s = es_cancelled s \<union> set_option (live (es_reg s) id0)" "es_next ?s = es_next s"
    using run by (auto simp: exec_finish_def Sessions_Close_def fun_upd_idem split: option.splits)
  have old: "t < es_next s" if "live (es_reg s) sid = Some t" for sid t using D(1,3) that by blast
  show ?thesis
  proof (rule exec_invI, unfold new)
    show "((es_running s)(t0 := None)) t = Some sid \<and> t \<notin> es_cancelled s \<union> set_option (live (es_reg s) id0)"
      if "((live (es_reg s))(id0 := None)) sid = Some t" for sid t
    proof -
      from that have t: "live (es_reg s) sid = Some t" "sid \<noteq> id0" by (auto split: if_splits)
      with D(1) [OF t(1)] D(2) [OF t(1)] D(1) [of id0 t] run show ?thesis by auto
    qed
    show "t < es_next s" if "((es_running s)(t0 := None)) t = Some sid" for t sid
      using that D(3) [of t sid] by (auto split: if_splits)
    show "((live (es_reg s))(id0 := None)) sid = Some t"
      if "((es_running s)(t0 := None)) t = Some sid" "t \<notin> es_cancelled s \<union> set_option (live (es_reg s) id0)" for t sid
      using that D(4) [of t sid] by (auto split: if_splits)
    show "t < es_next s" if "t \<in> es_cancelled s \<union> set_option (live (es_reg s) id0)" for t
      using that D(5) [of t] old [of id0 t] by auto
  qed
qed

lemma exec_inv_step: "exec_step s s' \<Longrightarrow> exec_inv s \<Longrightarrow> exec_inv s'"
  by (induction rule: exec_step.induct) (auto intro: exec_inv_open exec_inv_finish)

lemma exec_inv_reachable: "exec_reachable s \<Longrightarrow> exec_inv s"
  by (induction rule: exec_reachable.induct) (auto intro: exec_inv_init exec_inv_step)

subsection \<open>The pump\<close>

definition is_out :: "byte list \<Rightarrow> bool" where
  "is_out f \<longleftrightarrow> hd f = byte_of_char CHR ''o''"

definition stdout :: "pump \<Rightarrow> byte list list" where
  "stdout p = map tl (filter is_out (pu_out p))"

definition exits :: "pump \<Rightarrow> byte list list" where
  "exits p = filter (\<lambda>f. \<not> is_out f) (pu_out p)"

lemma frame_tags [simp]: "is_out (out_frame c)" "\<not> is_out (exit_frame x)" "tl (out_frame c) = c"
  by (simp_all add: is_out_def out_frame_def exit_frame_def byte_of_char_def)

definition pump_inv :: "pump \<Rightarrow> bool" where
  "pump_inv p \<longleftrightarrow> pu_written p = stdout p @ pu_pending p \<and>
     (if pu_main p = Waiting then exits p = [] else \<exists>code. pu_exit p = Some code \<and> exits p = [exit_frame (Some code)])"

lemma pump_inv_step: "pump_step p p' \<Longrightarrow> pump_inv p \<Longrightarrow> pump_inv p'"
  by (induction rule: pump_step.induct) (auto simp: pump_inv_def stdout_def exits_def split: if_splits)

lemma pump_inv_reachable: "pump_reachable p \<Longrightarrow> pump_inv p"
proof (induction rule: pump_reachable.induct)
  case pump_start
  then show ?case by (simp add: pump_inv_def pump_init_def stdout_def exits_def)
qed (rule pump_inv_step)

subsection \<open>Commands\<close>

lemma first_dir_dir:
  assumes "first_dir cs s = (d, s')"
  shows "d = ''/'' \<or> (d \<in> set cs \<and> d \<noteq> [] \<and> (\<exists>p n. kpath d = Inr p \<and> lookup s p = Some n \<and> is_dir n))"
proof -
  have stat: "lookup (snd (os_Stat c t)) = lookup t" for c t
    by (auto simp: os_Stat_def split: option.splits sum.splits)
  have found: "\<exists>p. kpath c = Inr p \<and> lookup t p = Some n" if "os_Stat c t = (Inr n, t')" for c t n t'
    using that by (auto simp: os_Stat_def dest!: resolve_Inr split: option.splits sum.splits)
  show ?thesis using assms
  proof (induction cs arbitrary: s)
    case (Cons c cs)
    obtain r s1 where st: "os_Stat c s = (r, s1)" by force
    with stat [of c s] have same: "lookup s1 = lookup s" by simp
    show ?case
    proof (cases "c \<noteq> [] \<and> (\<exists>n. r = Inr n \<and> is_dir n)")
      case True
      with Cons.prems st found [of c s _ s1] show ?thesis by auto
    next
      case False
      then have "first_dir cs s = (d, s') \<or> first_dir cs s1 = (d, s')"
        using Cons.prems st by (auto split: sum.splits if_splits)
      with Cons.IH [of s] Cons.IH [of s1] same show ?thesis by auto
    qed
  qed simp
qed

section \<open>Properties\<close>

text \<open>C16: Shutting the subscriber down reaches every session: in every state the open messages and the
  ends of sessions can lead to, in any order and with any reuse of ids, after \<open>stop\<close> every session
  that still runs has been cancelled and the registry is empty.\<close>

theorem stop_cancels_every_session:
  assumes "exec_reachable s" and "es_running s t = Some sid"
  shows "t \<in> es_cancelled (exec_stop s) \<and> live (es_reg (exec_stop s)) = Map.empty"
  using exec_invD(4) [OF exec_inv_reachable [OF assms(1)] assms(2)]
  by (auto simp: exec_stop_def Sessions_CloseAll_def intro: ranI)

definition demo_open :: string where
  "demo_open = json_print (JObj [(''id'', JStr ''s1''), (''target'', JObj [(''kind'', JStr ''shell'')])])"

definition demo_request :: ExecRequest where
  "demo_request = ExecRequest_zero\<lparr>er_ID := ''s1'', er_Target := ExecTarget_zero\<lparr>et_Kind := ''shell''\<rparr>\<rparr>"

lemma demo_open_decodes: "DecodeRequest demo_open = Inr demo_request"
  by code_simp

theorem stop_cancels_every_session_witness:
  "0 \<in> es_cancelled (exec_stop (exec_open demo_open exec_init))"
proof -
  have "exec_reachable (exec_open demo_open exec_init)"
    by (rule exec_next [OF exec_start step_open])
  moreover have "es_running (exec_open demo_open exec_init) 0 = Some ''s1''"
    by (simp add: exec_open_def demo_open_decodes demo_request_def Sessions_Open_def exec_init_def)
  ultimately show ?thesis using stop_cancels_every_session by blast
qed

text \<open>C35: Re-opening a session under its id kills the new session, too: \<open>Open\<close> cancels the old one, and
  when that one's goroutine ends, its deferred \<open>Close\<close> finds the new session under the id, cancels it
  and drops it from the registry, while it is running.\<close>

theorem reopened_session_is_killed:
  assumes "DecodeRequest d = Inr req" and "DecodeRequest d' = Inr req'" and "er_ID req' = er_ID req"
    and "s' = exec_finish (es_next s) (exec_open d' (exec_open d s))"
  shows "es_running s' (Suc (es_next s)) = Some (er_ID req) \<and> Suc (es_next s) \<in> es_cancelled s' \<and>
    live (es_reg s') (er_ID req) = None"
  using assms by (simp add: exec_finish_def exec_open_def Sessions_Open_def Sessions_Close_def)

theorem reopened_session_is_killed_witness:
  "Suc 0 \<in> es_cancelled (exec_finish 0 (exec_open demo_open (exec_open demo_open exec_init)))"
  using reopened_session_is_killed [OF demo_open_decodes demo_open_decodes refl refl, of exec_init]
  by (simp add: exec_init_def)


lemma pump_demo:
  "pump_reachable \<lparr>pu_written = [[1]], pu_pending = [[1]], pu_exit = Some 0, pu_out = [exit_frame (Some 0)],
     pu_main = ExitSent, pu_reader = True\<rparr>"
proof -
  have "pump_reachable (pump_init\<lparr>pu_written := [[1]], pu_pending := [[1]]\<rparr>)"
    using pump_next [OF pump_start child_writes [of pump_init "[1]"]] by (simp add: pump_init_def)
  then have "pump_reachable (pump_init\<lparr>pu_written := [[1]], pu_pending := [[1]], pu_exit := Some 0\<rparr>)"
    by (rule pump_next) (use child_exits [of "pump_init\<lparr>pu_written := [[1]], pu_pending := [[1]]\<rparr>" 0] in \<open>simp add: pump_init_def\<close>)
  then show ?thesis
    by (rule pump_next)
      (use sends_exit [of "pump_init\<lparr>pu_written := [[1]], pu_pending := [[1]], pu_exit := Some 0\<rparr>" 0] in \<open>simp add: pump_init_def\<close>)
qed


text \<open>The exit frame need not be the last one, and output may be lost: the main goroutine does not
  wait for the reader, so there is a run in which output is published after the exit frame, and one
  that ends with the reader gone and output of the child never published.\<close>

theorem pump_may_lose_output:
  "(\<exists>p. pump_reachable p \<and> pu_out p = [exit_frame (Some 0), out_frame [1]]) \<and>
   (\<exists>p. pump_reachable p \<and> pu_main p = Closed \<and> \<not> pu_reader p \<and> pu_written p = [[1]] \<and> stdout p = [])"
proof
  let ?p = "\<lparr>pu_written = [[1]], pu_pending = [[1]], pu_exit = Some 0, pu_out = [exit_frame (Some 0)],
     pu_main = ExitSent, pu_reader = True\<rparr>"
  have "pump_step ?p (?p\<lparr>pu_pending := [], pu_out := [exit_frame (Some 0), out_frame [1]]\<rparr>)"
    using reader_reads [of ?p "[1]" "[]"] by simp
  from pump_next [OF pump_demo this]
  show "\<exists>p. pump_reachable p \<and> pu_out p = [exit_frame (Some 0), out_frame [1]]" by force
  have "pump_reachable (?p\<lparr>pu_main := Closed\<rparr>)"
    using pump_next [OF pump_demo closes [of ?p]] by simp
  then have "pump_reachable (?p\<lparr>pu_main := Closed, pu_reader := False\<rparr>)"
    by (rule pump_next) (use reader_ends [of "?p\<lparr>pu_main := Closed\<rparr>"] in simp)
  then show "\<exists>p. pump_reachable p \<and> pu_main p = Closed \<and> \<not> pu_reader p \<and> pu_written p = [[1]] \<and> stdout p = []"
    by (force simp: stdout_def)
qed

text \<open>\<open>Run\<close> announces the exit exactly when it returns nil: one exit frame then, none on any of its
  error paths, and a child it could not subscribe for is killed.\<close>

theorem Run_exit_frame:
  assumes "Run_exec ord req pty_start subscribe ctx_done state s = (e, evs, s')"
  shows "[f. Published f \<leftarrow> evs] = (if e = None then [exit_frame state] else []) \<and>
    (e = Some SubscribeIn \<longrightarrow> Killed \<in> set evs \<and> PtyClosed \<in> set evs)"
proof -
  have "r \<noteq> Inl SubscribeIn" if "buildCommand ord (er_Target req) s = (r, t)" for r t
    using that by (auto simp: buildCommand_def Let_def split: prod.splits if_splits)
  then show ?thesis using assms by (auto simp: Run_exec_def Let_def split: prod.splits sum.splits if_splits)
qed

theorem Run_exit_frame_witness:
  "\<exists>evs s'. Run_exec [] demo_request (\<lambda>_. True) True False (Some 3) os_demo = (None, evs, s') \<and>
     [f. Published f \<leftarrow> evs] = [exit_frame (Some 3)]"
proof -
  obtain e evs s' where run: "Run_exec [] demo_request (\<lambda>_. True) True False (Some 3) os_demo = (e, evs, s')"
    by (metis prod.collapse)
  then have "e = None"
    by (auto simp: Run_exec_def buildCommand_def demo_request_def ExecTarget_zero_def Let_def split: prod.splits)
  with run Run_exit_frame [OF run] show ?thesis by auto
qed

text \<open>Every request the subscriber accepts has a command: for a request that decodes and validates,
  \<open>buildCommand\<close> does not fail, on no file system; the child is a shell with the requested arguments
  or \<^verbatim>\<open>crun exec\<close> of the container, and it starts in the root or in a directory that exists.\<close>

theorem decoded_request_has_command:
  assumes "DecodeRequest data = Inr req" and "buildCommand ord (er_Target req) s = (r, s')"
  shows "\<exists>cmd. r = Inr cmd \<and>
    (et_Kind (er_Target req) = ''exec'' \<longrightarrow>
      cmd_argv cmd = [''crun'', ''exec'', et_Container (er_Target req)] @ et_Command (er_Target req) @ et_Args (er_Target req)) \<and>
    (cmd_dir cmd = ''/'' \<or> (\<exists>p n. kpath (cmd_dir cmd) = Inr p \<and> lookup s p = Some n \<and> is_dir n))"
proof -
  have stat: "lookup (snd (os_Stat c t)) = lookup t" for c t
    by (auto simp: os_Stat_def split: option.splits sum.splits)
  have shell: "lookup t' = lookup t" if "first_shell cs t = (c, t')" for cs t c t'
    using that
  proof (induction cs arbitrary: t)
    case (Cons x cs)
    from Cons stat [of x t] show ?case by (auto split: prod.splits sum.splits)
  qed simp
  have kind: "et_Kind (er_Target req) = ''shell'' \<or> et_Kind (er_Target req) = ''exec''"
    using DecodeRequest_Inr [OF assms(1)] by (auto simp: ExecRequest_Validate_None)
  obtain sh s1 where sh: "pickShell (et_Command (er_Target req)) s = (sh, s1)" by force
  have s1: "lookup s1 = lookup s"
    using sh shell by (auto simp: pickShell_def simp del: first_shell.simps split: list.splits)
  obtain d1 t1 d2 t2 where wd: "workDir (et_WorkDir (er_Target req)) s1 = (d1, t1)"
    "workDir (et_WorkDir (er_Target req)) s = (d2, t2)" by (metis prod.collapse)
  have "d1 = ''/'' \<or> (\<exists>p n. kpath d1 = Inr p \<and> lookup s p = Some n \<and> is_dir n)"
    "d2 = ''/'' \<or> (\<exists>p n. kpath d2 = Inr p \<and> lookup s p = Some n \<and> is_dir n)"
    using first_dir_dir wd s1 unfolding workDir_def by metis+
  with kind assms(2) sh wd show ?thesis
    by (auto simp: buildCommand_def Let_def)
qed

theorem decoded_request_has_command_witness:
  "\<exists>cmd. fst (buildCommand [] (er_Target demo_request) os_demo) = Inr cmd"
proof -
  obtain r s' where run: "buildCommand [] (er_Target demo_request) os_demo = (r, s')" by force
  from decoded_request_has_command [OF demo_open_decodes run] run show ?thesis by auto
qed

text \<open>Round trip of the frames: what a client encodes as input, resize and close is what the handler
  does, for all 16-bit sizes, and every other frame is ignored.\<close>

theorem in_frames_roundtrip:
  "handle_in (byte_of_char CHR ''i'' # bs) = Stdin bs \<and>
   handle_in (byte_of_char CHR ''r'' # be16 cols @ be16 rows) = Resize cols rows \<and>
   handle_in [byte_of_char CHR ''x''] = KillChild \<and>
   (d = [] \<or> hd d \<notin> byte_of_char ` {CHR ''i'', CHR ''r'', CHR ''x''} \<longrightarrow> handle_in d = NoAction)"
proof -
  have two: "take 2 (be16 a @ be16 b) = be16 a" "take 2 (drop 2 (be16 a @ be16 b)) = be16 b" for a b
    by (simp_all add: be16_def)
  have tags: "byte_of_char CHR ''i'' \<noteq> byte_of_char CHR ''r''" "byte_of_char CHR ''x'' \<noteq> byte_of_char CHR ''r''"
    "byte_of_char CHR ''x'' \<noteq> byte_of_char CHR ''i''" "byte_of_char CHR ''r'' \<noteq> byte_of_char CHR ''i''"
    by (simp_all add: byte_of_char_def)
  have "handle_in (byte_of_char CHR ''r'' # be16 cols @ be16 rows) = Resize cols rows"
    using tags two [of cols rows] by (simp add: handle_in_def)
  moreover have "d = [] \<or> hd d \<notin> byte_of_char ` {CHR ''i'', CHR ''r'', CHR ''x''} \<longrightarrow> handle_in d = NoAction"
    by (cases d) (auto simp: handle_in_def)
  ultimately show ?thesis using tags by (simp add: handle_in_def)
qed

theorem in_frames_roundtrip_witness:
  "handle_in (byte_of_char CHR ''r'' # be16 80 @ be16 24) = Resize 80 24 \<and> handle_in [] = NoAction"
  using in_frames_roundtrip [of "[]" 80 24 "[]"] by simp

end
