(* ===== verification/Properties.thy ===== *)
theory Properties
  imports Subscriber Go_Json Go_Path
begin

text \<open>
  Package \<open>properties\<close> and its \<open>ApplyFunc\<close> \<open>propertiesApplyer\<close>: the mirror of the published properties
  in a directory tree, one file per key.  The walks over the tree are recursive over the depth of
  the tree; the fuel is one more than the longest path the file system holds, and never runs out
  (theorem \<open>properties_walks_end\<close>).
\<close>

section \<open>Messages\<close>

record PropertySet =
  ps_Properties :: "(string \<times> string) list"

datatype props_invalid = EmptyKey | AbsoluteKey string | DotDotKey string | NulKey

datatype props_error = MkdirRoot errno | WalkRoot errno | RemoveStale string errno | MkdirParent string errno
  | WriteProp string errno | RenameProp string errno

definition properties_Subject :: "string \<Rightarrow> string" where
  "properties_Subject vmID = ''weft.properties.'' @ vmID"

definition dec_PropertySet :: "PropertySet into" where
  "dec_PropertySet = dec_struct [''properties'']
     (\<lambda>n j r. map_option (\<lambda>v. r\<lparr>ps_Properties := v\<rparr>) (dec_map dec_string [] j (ps_Properties r)))"

definition decode_PropertySet :: "string \<Rightarrow> PropertySet option" where
  "decode_PropertySet = Unmarshal dec_PropertySet \<lparr>ps_Properties = []\<rparr>"

definition validate_key :: "string \<Rightarrow> props_invalid err" where
  "validate_key k =
     (if k = [] then Some EmptyKey
      else if HasPrefix k ''/'' then Some (AbsoluteKey k)
      else if Contains k ''..'' then Some (DotDotKey k)
      else if NUL \<in> set k then Some NulKey
      else None)"

text \<open>The loop stops at the first bad key it visits; the keys are visited in the order of the list.\<close>

fun validate_all_keys :: "string list \<Rightarrow> props_invalid err" where
  "validate_all_keys [] = None"
| "validate_all_keys (k # ks) = (case validate_key k of Some e \<Rightarrow> Some e | None \<Rightarrow> validate_all_keys ks)"

definition PropertySet_Validate :: "PropertySet \<Rightarrow> props_invalid err" where
  "PropertySet_Validate s = validate_all_keys (map fst (ps_Properties s))"

definition properties_HandleMessage :: "(PropertySet \<Rightarrow> 's \<Rightarrow> 'a err \<times> 's) \<Rightarrow> string \<Rightarrow> 's \<Rightarrow>
    (props_invalid, 'a) handle_error err \<times> 's" where
  "properties_HandleMessage apply_fn data s = (case decode_PropertySet data of
       None \<Rightarrow> (Some Undecodable, s)
     | Some ps \<Rightarrow> (case PropertySet_Validate ps of
         Some e \<Rightarrow> (Some (Invalid e), s)
       | None \<Rightarrow> (case apply_fn ps s of (e, s') \<Rightarrow> (map_option ApplyFailed e, s'))))"

section \<open>The tree\<close>

definition depth :: "os \<Rightarrow> nat" where
  "depth s = foldr max (map (length \<circ> fst) (os_tree s)) 0"

text \<open>\<open>collectFiles\<close>: \<open>filepath.WalkDir\<close> with its callback, which keeps the regular files that are not
  called \<^verbatim>\<open>.tmp\<close> and gives up at the first directory that cannot be read.\<close>

definition keep_file :: "string \<Rightarrow> node \<Rightarrow> string list" where
  "keep_file p n = (case n of Reg _ _ \<Rightarrow> if filepath_Ext p = ''.tmp'' then [] else [p] | _ \<Rightarrow> [])"

fun walk_dir :: "nat \<Rightarrow> string \<Rightarrow> node \<Rightarrow> os \<Rightarrow> (errno + string list) \<times> os"
  and walk_entries :: "nat \<Rightarrow> string \<Rightarrow> (string \<times> node) list \<Rightarrow> os \<Rightarrow> (errno + string list) \<times> os" where
  "walk_dir 0 p n s = (Inr [], s)"
| "walk_dir (Suc fuel) p n s =
     (if \<not> is_dir n then (Inr (keep_file p n), s)
      else case os_ReadDir p s of
        (Inl e, s1) \<Rightarrow> (Inl e, s1)
      | (Inr es, s1) \<Rightarrow> walk_entries fuel p es s1)"
| "walk_entries fuel p [] s = (Inr [], s)"
| "walk_entries fuel p ((c, n) # es) s = (case walk_dir fuel (filepath_Join [p, c]) n s of
       (Inl e, s1) \<Rightarrow> (Inl e, s1)
     | (Inr xs, s1) \<Rightarrow> (case walk_entries fuel p es s1 of
         (Inl e, s2) \<Rightarrow> (Inl e, s2)
       | (Inr ys, s2) \<Rightarrow> (Inr (xs @ ys), s2)))"

definition collectFiles :: "string \<Rightarrow> os \<Rightarrow> (errno + string list) \<times> os" where
  "collectFiles root s = (case os_Stat root s of
       (Inl e, s1) \<Rightarrow> (Inl e, s1)
     | (Inr n, s1) \<Rightarrow> walk_dir (Suc (Suc (depth s))) root n s1)"

fun prune :: "nat \<Rightarrow> string \<Rightarrow> string \<Rightarrow> os \<Rightarrow> os"
  and prune_entries :: "nat \<Rightarrow> string \<Rightarrow> string \<Rightarrow> (string \<times> node) list \<Rightarrow> os \<Rightarrow> os" where
  "prune 0 root dir s = s"
| "prune (Suc fuel) root dir s = (case os_ReadDir dir s of
       (Inl _, s1) \<Rightarrow> s1
     | (Inr es, s1) \<Rightarrow>
         let s2 = prune_entries fuel root dir es s1 in
         if dir = root then s2
         else case os_ReadDir dir s2 of
           (Inl _, s3) \<Rightarrow> snd (os_Remove dir s3)
         | (Inr es2, s3) \<Rightarrow> if es2 = [] then snd (os_Remove dir s3) else s3)"
| "prune_entries fuel root dir [] s = s"
| "prune_entries fuel root dir ((c, n) # es) s =
     prune_entries fuel root dir es (if is_dir n then prune fuel root (filepath_Join [dir, c]) s else s)"

definition pruneEmptyDirs :: "string \<Rightarrow> os \<Rightarrow> os" where
  "pruneEmptyDirs root s = prune (Suc (Suc (depth s))) root root s"

section \<open>The applyer\<close>

fun remove_stale :: "string set \<Rightarrow> string list \<Rightarrow> os \<Rightarrow> props_error err \<times> os" where
  "remove_stale want [] s = (None, s)"
| "remove_stale want (p # ps) s =
     (if p \<in> want then remove_stale want ps s
      else case os_Remove p s of
        (Some e, s1) \<Rightarrow> if e \<noteq> ENOENT then (Some (RemoveStale p e), s1) else remove_stale want ps s1
      | (None, s1) \<Rightarrow> remove_stale want ps s1)"

definition write_prop :: "string \<Rightarrow> string \<Rightarrow> string \<Rightarrow> os \<Rightarrow> props_error err \<times> os" where
  "write_prop root k v s =
     (let p = filepath_Join [root, k]; tmp = p @ ''.tmp'' in
      case os_MkdirAll (filepath_Dir p) mode_0755 s of
        (Some e, s1) \<Rightarrow> (Some (MkdirParent p e), s1)
      | (None, s1) \<Rightarrow> (case os_WriteFile tmp v mode_0644 s1 of
          (Some e, s2) \<Rightarrow> (Some (WriteProp tmp e), s2)
        | (None, s2) \<Rightarrow> (case os_Rename tmp p s2 of
            (Some e, s3) \<Rightarrow> (Some (RenameProp p e), snd (os_Remove tmp s3))
          | (None, s3) \<Rightarrow> (None, s3))))"

fun write_props :: "string \<Rightarrow> (string \<times> string) list \<Rightarrow> string list \<Rightarrow> os \<Rightarrow> props_error err \<times> os" where
  "write_props root m [] s = (None, s)"
| "write_props root m (k # ks) s = (case write_prop root k (the (map_of m k)) s of
       (Some e, s1) \<Rightarrow> (Some e, s1)
     | (None, s1) \<Rightarrow> write_props root m ks s1)"

definition propertiesApplyer :: "string \<Rightarrow> PropertySet \<Rightarrow> os \<Rightarrow> props_error err \<times> os" where
  "propertiesApplyer root ps s = (case os_MkdirAll root mode_0755 s of
       (Some e, s1) \<Rightarrow> (Some (MkdirRoot e), s1)
     | (None, s1) \<Rightarrow>
         let want = (\<lambda>k. filepath_Join [root, k]) ` fst ` set (ps_Properties ps) in
         (case collectFiles root s1 of
            (Inl e, s2) \<Rightarrow> (Some (WalkRoot e), s2)
          | (Inr existing, s2) \<Rightarrow> (case remove_stale want existing s2 of
              (Some e, s3) \<Rightarrow> (Some e, s3)
            | (None, s3) \<Rightarrow>
                (case write_props root (ps_Properties ps) (sort (remdups (map fst (ps_Properties ps)))) s3 of
                   (Some e, s4) \<Rightarrow> (Some e, s4)
                 | (None, s4) \<Rightarrow> (None, pruneEmptyDirs root s4)))))"

section \<open>Lemmas\<close>

lemma validate_key_None:
  "validate_key k = None \<longleftrightarrow> k \<noteq> [] \<and> \<not> HasPrefix k ''/'' \<and> \<not> Contains k ''..'' \<and> NUL \<notin> set k"
  by (simp add: validate_key_def)

lemma validate_all_keys_None: "validate_all_keys ks = None \<longleftrightarrow> (\<forall>k \<in> set ks. validate_key k = None)"
  by (induction ks) (auto split: option.splits)

interpretation properties_msg: message_handler "properties_HandleMessage apply_fn" decode_PropertySet
    PropertySet_Validate apply_fn for apply_fn
  by unfold_locales (auto simp: properties_HandleMessage_def split: prod.splits)

subsection \<open>Every moment of an apply\<close>

lemma evolves_walk:
  "I (lookup s) \<Longrightarrow> evolves I s (snd (walk_dir fuel p n s))"
  "I (lookup s) \<Longrightarrow> evolves I s (snd (walk_entries fuel p es s))"
proof (induction fuel p n s and fuel p es s rule: walk_dir_walk_entries.induct)
  case (1 p n s)
  then show ?case by (simp add: evolves_refl)
next
  case (2 fuel p n s)
  obtain r s1 where rd: "os_ReadDir p s = (r, s1)" by force
  have e1: "evolves I s s1" using evolves_ReadDir [where I = I and name = p, OF 2(2)] rd by simp
  show ?case
  proof (cases "is_dir n")
    case True
    with 2(1) [OF _ rd [symmetric]] rd e1 show ?thesis
      by (cases r) (auto intro: evolves_trans [OF e1] dest: evolvesD)
  qed (simp add: 2(2) evolves_refl)
next
  case (3 fuel p s)
  then show ?case by (simp add: evolves_refl)
next
  case (4 fuel p c n es s)
  obtain r s1 where wd: "walk_dir fuel (filepath_Join [p, c]) n s = (r, s1)" by force
  with 4(1) [OF 4(3)] have e1: "evolves I s s1" by simp
  show ?case
  proof (cases r)
    case (Inl e)
    with wd e1 show ?thesis by simp
  next
    case (Inr xs)
    with 4(2) [OF wd [symmetric] Inr evolvesD [OF e1]] have "evolves I s1 (snd (walk_entries fuel p es s1))" by simp
    with evolves_trans [OF e1 this] wd Inr show ?thesis by (auto split: prod.splits sum.splits)
  qed
qed

lemma evolves_collectFiles: "I (lookup s) \<Longrightarrow> evolves I s (snd (collectFiles root s))"
proof -
  assume I: "I (lookup s)"
  obtain r s1 where st: "os_Stat root s = (r, s1)" by force
  have e1: "evolves I s s1" using evolves_Stat [where I = I and name = root, OF I] st by simp
  have "evolves I s1 (snd (walk_dir (Suc (Suc (depth s))) root n s1))" for n
    by (rule evolves_walk) (rule evolvesD [OF e1])
  then have "evolves I s (snd (walk_dir (Suc (Suc (depth s))) root n s1))" for n
    using evolves_trans [OF e1] by blast
  with e1 st show ?thesis unfolding collectFiles_def by (cases r) (simp_all del: walk_dir.simps)
qed

lemma evolves_remove:
  assumes "I (lookup s)" and del: "\<And>m q. I m \<Longrightarrow> I (m(q := None))"
  shows "evolves I s (snd (os_Remove name s))"
  by (rule evolves_Remove [where I = I]) (use assms in auto)

text \<open>Pruning only takes away directories, among those its walk can name.\<close>

definition prunes :: "(string \<Rightarrow> bool) \<Rightarrow> (path \<rightharpoonup> node) \<Rightarrow> (path \<rightharpoonup> node) \<Rightarrow> bool" where
  "prunes Q old m \<longleftrightarrow> (\<forall>p. m p = old p \<or>
     m p = None \<and> (\<exists>a. old p = Some (Directory a)) \<and> (\<exists>d. Q d \<and> kpath d = Inr p))"

lemma prunes_refl [simp]: "prunes Q m m"
  by (simp add: prunes_def)

lemma prunes_Some: "prunes Q old m \<Longrightarrow> m p = Some n \<Longrightarrow> old p = Some n"
  unfolding prunes_def by (metis option.distinct(1))

lemma prunes_del:
  assumes "prunes Q old m" and "old p = Some (Directory a)" and "Q d" and "kpath d = Inr p"
  shows "prunes Q old (m(p := None))"
  using assms unfolding prunes_def by auto

lemma evolves_prune:
  assumes sub: "\<And>d p c. Q d \<Longrightarrow> kpath d = Inr p \<Longrightarrow> old (p @ [c]) \<noteq> None \<Longrightarrow> Q (filepath_Join [d, c])"
  shows "prunes Q old (lookup s) \<Longrightarrow> Q dir \<Longrightarrow> evolves (prunes Q old) s (prune fuel root dir s)"
    and "prunes Q old (lookup s) \<Longrightarrow> Q dir \<Longrightarrow> kpath dir = Inr p \<Longrightarrow> (\<forall>(c, n) \<in> set es. old (p @ [c]) \<noteq> None) \<Longrightarrow>
      evolves (prunes Q old) s (prune_entries fuel root dir es s)"
proof (induction fuel root dir s and fuel root dir es s arbitrary: and p rule: prune_prune_entries.induct)
  case (1 root dir s)
  then show ?case by (simp add: evolves_refl)
next
  case (2 fuel root dir s)
  let ?I = "prunes Q old"
  obtain r s1 where rd: "os_ReadDir dir s = (r, s1)" by force
  have e1: "evolves ?I s s1" using evolves_ReadDir [where I = ?I and name = dir, OF 2(2)] rd by simp
  show ?case
  proof (cases r)
    case (Inl e)
    with rd e1 show ?thesis by simp
  next
    case (Inr es)
    let ?s2 = "prune_entries fuel root dir es s1"
    obtain p where k: "kpath dir = Inr p"
      using rd Inr by (auto simp: os_ReadDir_def resolve_def split: option.splits sum.splits)
    note dir = ReadDir_Inr [OF rd [unfolded Inr] k]
    from dir(3) obtain a where "lookup s p = Some (Directory a)" by (auto elim: is_dirE)
    with prunes_Some [OF 2(2)] have a: "old p = Some (Directory a)" by blast
    have "\<forall>(c, n) \<in> set es. old (p @ [c]) \<noteq> None"
      using ReadDir_entry [OF rd [unfolded Inr] k] prunes_Some [OF 2(2)] by fastforce
    from 2(1) [OF rd [symmetric] Inr evolvesD [OF e1] 2(3) k this] have "evolves ?I s1 ?s2" .
    with e1 have e2: "evolves ?I s ?s2" by (rule evolves_trans)
    obtain r3 s3 where rd3: "os_ReadDir dir ?s2 = (r3, s3)" by force
    have "evolves ?I ?s2 s3"
      using evolves_ReadDir [where I = ?I and name = dir, OF evolvesD [OF e2]] rd3 by simp
    with e2 have e3: "evolves ?I s s3" by (rule evolves_trans)
    have "evolves ?I s3 (snd (os_Remove dir s3))"
      by (rule evolves_Remove [where I = ?I, OF evolvesD [OF e3]])
        (use k prunes_del [OF evolvesD [OF e3] a 2(3) k] in simp)
    with e3 have e4: "evolves ?I s (snd (os_Remove dir s3))" by (rule evolves_trans)
    from rd rd3 Inr e2 e3 e4 show ?thesis by (cases r3; cases "dir = root") (simp_all add: Let_def)
  qed
next
  case (3 fuel root dir s)
  then show ?case by (simp add: evolves_refl)
next
  case (4 fuel root dir c n es s)
  let ?s1 = "if is_dir n then prune fuel root (filepath_Join [dir, c]) s else s"
  have "Q (filepath_Join [dir, c])" using sub [OF 4(4,5), of c] 4(6) by simp
  with 4(1) [OF _ 4(3)] have e1: "evolves (prunes Q old) s ?s1"
    by (cases "is_dir n") (simp_all add: evolves_refl 4(3))
  from 4(2) [OF evolvesD [OF e1] 4(4,5)] 4(6) have "evolves (prunes Q old) ?s1 (prune_entries fuel root dir es ?s1)"
    by simp
  with e1 show ?case using evolves_trans by (simp only: prune_entries.simps)
qed

lemma evolves_pruneEmptyDirs:
  assumes "\<And>d p c. Q d \<Longrightarrow> kpath d = Inr p \<Longrightarrow> lookup s (p @ [c]) \<noteq> None \<Longrightarrow> Q (filepath_Join [d, c])" and "Q root"
  shows "evolves (prunes Q (lookup s)) s (pruneEmptyDirs root s)"
  unfolding pruneEmptyDirs_def by (rule evolves_prune) (use assms in auto)

lemma evolves_remove_stale:
  assumes del: "\<And>m p q. p \<in> set ps \<Longrightarrow> p \<notin> want \<Longrightarrow> kpath p = Inr q \<Longrightarrow> I m \<Longrightarrow> I (m(q := None))"
  shows "I (lookup s) \<Longrightarrow> evolves I s (snd (remove_stale want ps s))"
  using del
proof (induction ps arbitrary: s)
  case Nil
  then show ?case by (simp add: evolves_refl)
next
  case (Cons p ps)
  show ?case
  proof (cases "p \<in> want")
    case False
    obtain r s1 where rm: "os_Remove p s = (r, s1)" by force
    have "evolves I s (snd (os_Remove p s))"
      by (rule evolves_Remove [where I = I, OF Cons.prems(1)]; rule Cons.prems(2) [of p])
        (use False Cons.prems(1) in simp_all)
    with rm have e1: "evolves I s s1" by simp
    have "evolves I s1 (snd (remove_stale want ps s1))"
      by (rule Cons.IH [OF evolvesD [OF e1]]) (use Cons.prems(2) in auto)
    with e1 have "evolves I s (snd (remove_stale want ps s1))" by (rule evolves_trans)
    with rm e1 False show ?thesis by (cases r) auto
  qed (use Cons in auto)
qed

text \<open>An entry is untorn if it is as before, a directory, the complete value of a property at its path,
  or one of the temporary files.\<close>

definition untorn :: "string \<Rightarrow> (string \<times> string) list \<Rightarrow> (path \<rightharpoonup> node) \<Rightarrow> (path \<rightharpoonup> node) \<Rightarrow> bool" where
  "untorn root props old m \<longleftrightarrow> (\<forall>p n. m p = Some n \<longrightarrow> old p = Some n \<or> is_dir n \<or>
     (\<exists>k v a. map_of props k = Some v \<and> kpath (filepath_Join [root, k]) = Inr p \<and> n = Reg a v) \<or>
     (\<exists>k \<in> fst ` set props. kpath (filepath_Join [root, k] @ ''.tmp'') = Inr p))"

lemma untorn_updates:
  assumes "untorn root props old m"
  shows "untorn root props old (m(q := None))" and "untorn root props old (m(q \<mapsto> Directory a))"
    and "k \<in> fst ` set props \<Longrightarrow> kpath (filepath_Join [root, k] @ ''.tmp'') = Inr q \<Longrightarrow> untorn root props old (m(q \<mapsto> n))"
    and "map_of props k = Some v \<Longrightarrow> kpath (filepath_Join [root, k]) = Inr q \<Longrightarrow> untorn root props old (m(q \<mapsto> Reg a v))"
  using assms unfolding untorn_def by auto

lemma evolves_write_prop:
  assumes I: "untorn root props old (lookup s)" and k: "map_of props k = Some v"
  shows "evolves (untorn root props old) s (snd (write_prop root k v s))"
proof -
  let ?I = "untorn root props old" and ?p = "filepath_Join [root, k]" and ?tmp = "filepath_Join [root, k] @ ''.tmp''"
  have mem: "k \<in> fst ` set props" using k by (force dest: map_of_SomeD)
  obtain r1 s1 where 1: "os_MkdirAll (filepath_Dir ?p) mode_0755 s = (r1, s1)" by force
  have e1: "evolves ?I s s1"
    using evolves_MkdirAll [where I = ?I and name = "filepath_Dir ?p" and perm = mode_0755, OF I untorn_updates(2)] 1 by simp
  obtain r2 s2 where 2: "os_WriteFile ?tmp v mode_0644 s1 = (r2, s2)" by force
  have "evolves ?I s1 s2"
    using evolves_WriteFile [where I = ?I and name = ?tmp and data = v and perm = mode_0644,
        OF evolvesD [OF e1] untorn_updates(3) [OF _ mem]] 2 by simp
  with e1 have e2: "evolves ?I s s2" by (rule evolves_trans)
  obtain r3 s3 where 3: "os_Rename ?tmp ?p s2 = (r3, s3)" by force
  have "evolves ?I s2 s3" if nil: "r2 = None"
  proof -
    have "evolves ?I s2 (snd (os_Rename ?tmp ?p s2))"
    proof (rule evolves_Rename [where I = ?I, OF evolvesD [OF e2]])
      fix p q n
      assume pq: "kpath ?tmp = Inr p" "kpath ?p = Inr q" "p \<noteq> q" "lookup s2 p = Some n"
      obtain a where "lookup s2 p = Some (Reg a v)"
        using WriteFile_ok(1) [OF 2 [unfolded nil] pq(1)] by auto
      with pq(4) have "n = Reg a v" by simp
      with untorn_updates(1) [OF untorn_updates(4) [OF evolvesD [OF e2] k pq(2)]]
      show "?I ((lookup s2)(q \<mapsto> n, p := None))" by simp
    qed
    with 3 show ?thesis by simp
  qed
  with e2 have e3: "evolves ?I s s3" if "r2 = None" using that evolves_trans by blast
  have e4: "evolves ?I s (snd (os_Remove ?tmp s3))" if "r2 = None"
    using evolves_trans [OF e3 [OF that] evolves_remove [where I = ?I, OF evolvesD [OF e3 [OF that]] untorn_updates(1)]] .
  from 1 2 3 e1 e2 e3 e4 show ?thesis
    by (cases r1; cases r2; cases r3) (simp_all add: write_prop_def Let_def)
qed

lemma evolves_write_props:
  assumes "untorn root props old (lookup s)" and "set ks \<subseteq> fst ` set props"
  shows "evolves (untorn root props old) s (snd (write_props root props ks s))"
  using assms
proof (induction ks arbitrary: s)
  case Nil
  then show ?case by (simp add: evolves_refl)
next
  case (Cons k ks)
  from Cons.prems(2) obtain v where v: "map_of props k = Some v"
    by (metis insert_subset list.simps(15) map_of_eq_None_iff not_None_eq)
  obtain r s1 where w: "write_prop root k v s = (r, s1)" by force
  have e1: "evolves (untorn root props old) s s1" using evolves_write_prop [OF Cons.prems(1) v] w by simp
  have "evolves (untorn root props old) s (snd (write_props root props ks s1))"
    using evolves_trans [OF e1 Cons.IH [OF evolvesD [OF e1]]] Cons.prems(2) by simp
  with w v e1 show ?case by (cases r) simp_all
qed

lemma MkdirAll_dirs:
  assumes "I (lookup s)" and "\<And>m q a. I m \<Longrightarrow> I (m(q \<mapsto> Directory a))"
  shows "evolves I s (snd (os_MkdirAll name perm s))"
  by (rule evolves_MkdirAll [where I = I]) (use assms in auto)

subsection \<open>Nothing outside the tree\<close>

text \<open>An entry outside the tree of the root is as before, a directory made on the way to the root, or
  the temporary file beside the root.\<close>

definition outside_kept :: "path \<Rightarrow> (path \<rightharpoonup> node) \<Rightarrow> (path \<rightharpoonup> node) \<Rightarrow> bool" where
  "outside_kept r old m \<longleftrightarrow> (\<forall>p. (\<exists>q. p = r @ q) \<or> p = tmp_path r \<or> m p = old p \<or>
     (old p = None \<and> (\<exists>a. m p = Some (Directory a)) \<and> (\<exists>q. r = p @ q)))"

definition contained :: "path \<Rightarrow> (path \<rightharpoonup> node) \<Rightarrow> (path \<rightharpoonup> node) \<Rightarrow> bool" where
  "contained r old m \<longleftrightarrow> (\<forall>p. m p \<noteq> None \<longrightarrow> names_ok p) \<and> outside_kept r old m"

lemma contained_touch:
  assumes "contained r old m" and "names_ok q" and "(\<exists>t. q = r @ t) \<or> q = tmp_path r"
  shows "contained r old (m(q := x))"
  using assms unfolding contained_def outside_kept_def by auto

lemma contained_mkdir:
  assumes c: "contained r old m" and "names_ok q" and "q @ t = r @ u" and "m q = None"
  shows "contained r old (m(q \<mapsto> Directory a))"
proof -
  from assms(3) consider us where "q = r @ us" | us where "r = q @ us"
    by (auto simp: append_eq_append_conv2)
  then show ?thesis
  proof cases
    case 1
    with contained_touch [OF c assms(2)] show ?thesis by auto
  next
    case 2
    from c have "(\<exists>t. q = r @ t) \<or> q = tmp_path r \<or> old q = None"
      unfolding contained_def outside_kept_def using assms(4) by (metis option.distinct(1))
    then consider (A) "(\<exists>t. q = r @ t) \<or> q = tmp_path r" | (B) "old q = None" by (elim disjE) simp_all
    then show ?thesis
    proof cases
      case A
      then show ?thesis by (rule contained_touch [OF c assms(2)])
    next
      case B
      with 2 c assms(2) show ?thesis unfolding contained_def outside_kept_def by auto
    qed
  qed
qed

lemma contained_names: "contained r old m \<Longrightarrow> m p = Some n \<Longrightarrow> names_ok p"
  by (auto simp: contained_def)

lemma walk_tree:
  "os_tree (snd (walk_dir fuel p n s)) = os_tree s"
  "os_tree (snd (walk_entries fuel p es s)) = os_tree s"
proof (induction fuel p n s and fuel p es s rule: walk_dir_walk_entries.induct)
  case (2 fuel p n s)
  obtain r s1 where rd: "os_ReadDir p s = (r, s1)" by force
  with ReadDir_snd [of p s] have "os_tree s1 = os_tree s" by simp
  with rd 2 [OF _ rd [symmetric]] show ?case by (cases r) auto
next
  case (4 fuel p c n es s)
  obtain r s1 where wd: "walk_dir fuel (filepath_Join [p, c]) n s = (r, s1)" by force
  with 4(1) have t: "os_tree s1 = os_tree s" by simp
  show ?case
  proof (cases r)
    case (Inr xs)
    with 4(2) [OF wd [symmetric] Inr] t wd show ?thesis by (auto split: prod.splits sum.splits)
  qed (use wd t in simp)
qed simp_all

text \<open>The walk only returns paths of entries below the directory it starts at.\<close>

text \<open>The paths a walk from the root can name.\<close>

definition under :: "path \<Rightarrow> string \<Rightarrow> string \<Rightarrow> bool" where
  "under r root d \<longleftrightarrow> d = root \<or> (\<exists>t. names_ok (r @ t) \<and> d = path_string (r @ t))"

lemma under_sub:
  assumes "HasPrefix root ''/''" "kpath root = Inr r" and "under r root d" "kpath d = Inr p" "entry_name c"
  shows "under r root (filepath_Join [d, c])"
proof -
  have d: "HasPrefix d ''/''" and "\<exists>t. p = r @ t"
    using assms kpath_path_string [of "r @ _"] by (auto simp: under_def)
  then obtain t where "p = r @ t" by blast
  with filepath_Join_entry [OF d assms(4,5)] kpath_names_ok [OF assms(4)] assms(5) show ?thesis
    unfolding under_def by (intro disjI2 exI [of _ "t @ [c]"]) simp
qed

lemma under_kpath: "kpath root = Inr r \<Longrightarrow> under r root d \<Longrightarrow> \<exists>t. kpath d = Inr (r @ t)"
  unfolding under_def using kpath_path_string [of "r @ _"] by (auto intro: exI [of _ "[]"])

lemma walk_below:
  assumes root: "HasPrefix root ''/''" "kpath root = Inr r"
  shows "walk_dir fuel p n s = (Inr xs, s') \<Longrightarrow> (\<forall>q. lookup s q \<noteq> None \<longrightarrow> names_ok q) \<Longrightarrow> under r root p \<Longrightarrow>
     kpath p = Inr cs \<Longrightarrow> lookup s cs = Some n \<Longrightarrow> x \<in> set xs \<Longrightarrow>
     under r root x \<and> (\<exists>q a c. kpath x = Inr q \<and> lookup s q = Some (Reg a c))"
  and "walk_entries fuel p es s = (Inr xs, s') \<Longrightarrow> (\<forall>q. lookup s q \<noteq> None \<longrightarrow> names_ok q) \<Longrightarrow> under r root p \<Longrightarrow>
     kpath p = Inr cs \<Longrightarrow> (\<forall>(c, n) \<in> set es. lookup s (cs @ [c]) = Some n) \<Longrightarrow> x \<in> set xs \<Longrightarrow>
     under r root x \<and> (\<exists>q a c. kpath x = Inr q \<and> lookup s q = Some (Reg a c))"
proof (induction fuel p n s and fuel p es s arbitrary: xs s' cs x and xs s' cs x
    rule: walk_dir_walk_entries.induct)
  case (2 fuel p n s)
  show ?case
  proof (cases "is_dir n")
    case False
    with 2 show ?thesis by (auto simp: keep_file_def split: node.splits if_splits)
  next
    case True
    obtain r' s1 where rd: "os_ReadDir p s = (r', s1)" by force
    with 2(2) True obtain es where r': "r' = Inr es" and w: "walk_entries fuel p es s1 = (Inr xs, s')"
      by (cases r') auto
    have s1: "os_tree s1 = os_tree s" using ReadDir_snd [of p s] rd by simp
    have "\<forall>(c, n) \<in> set es. lookup s1 (cs @ [c]) = Some n"
      using ReadDir_entry [OF rd [unfolded r'] 2(5)] s1 by auto
    from 2(1) [OF _ rd [symmetric] r' w _ 2(4,5) this 2(7)] True s1 2(3) show ?thesis by simp
  qed
next
  case (4 fuel p c n es s)
  obtain r' s1 where wd: "walk_dir fuel (filepath_Join [p, c]) n s = (r', s1)" by force
  with 4(3) obtain ys where r': "r' = Inr ys" by (cases r') auto
  with wd 4(3) obtain zs where ws: "walk_entries fuel p es s1 = (Inr zs, s')" and xs: "xs = ys @ zs"
    by (auto split: prod.splits sum.splits)
  have s1: "os_tree s1 = os_tree s" using walk_tree(1) [of fuel "filepath_Join [p, c]" n s] wd by simp
  have look: "lookup s (cs @ [c]) = Some n" using 4(7) by simp
  with 4(4) have nc: "names_ok (cs @ [c])" by blast
  have u: "under r root (filepath_Join [p, c])" using under_sub [OF root 4(5,6)] nc by simp
  have "HasPrefix p ''/''" using 4(5) root(1) by (auto simp: under_def)
  then have k: "kpath (filepath_Join [p, c]) = Inr (cs @ [c])"
    using filepath_Join_entry [OF _ 4(6), of c] kpath_path_string [OF nc] nc by simp
  from 4(8) xs consider "x \<in> set ys" | "x \<in> set zs" by auto
  then show ?case
  proof cases
    case 1
    from 4(1) [OF wd [unfolded r'] 4(4) u k look 1] show ?thesis .
  next
    case 2
    from 4(2) [OF wd [symmetric] r' ws _ 4(5,6) _ 2] s1 4(4,7) show ?thesis by simp
  qed
qed auto

lemma collectFiles_below:
  assumes root: "HasPrefix root ''/''" "kpath root = Inr r" and "\<forall>q. lookup s q \<noteq> None \<longrightarrow> names_ok q"
    and "collectFiles root s = (Inr xs, s')" and "x \<in> set xs"
  shows "under r root x \<and> (\<exists>q a c. kpath x = Inr q \<and> lookup s q = Some (Reg a c))"
proof -
  obtain st s1 where st: "os_Stat root s = (st, s1)" by force
  with assms(4) obtain n where n: "st = Inr n" by (cases st) (auto simp: collectFiles_def)
  have "lookup s r = Some n" and s1: "os_tree s1 = os_tree s"
    using st n assms(2) by (auto simp: os_Stat_def dest!: resolve_Inr split: option.splits sum.splits)
  moreover have "walk_dir (Suc (Suc (depth s))) root n s1 = (Inr xs, s')"
    using assms(4) st n by (simp add: collectFiles_def del: walk_dir.simps)
  ultimately show ?thesis
    using walk_below(1) [OF root, where s = s1 and p = root and xs = xs and x = x] assms s1
    by (simp add: under_def del: walk_dir.simps)
qed

text \<open>Where the file of a valid key is.\<close>

lemma key_file:
  assumes "HasPrefix root ''/''" "kpath root = Inr r" and "validate_key k = None"
  shows "names_ok (r @ key_path k)" and "filepath_Join [root, k] = path_string (r @ key_path k)"
proof -
  have k: "k \<noteq> []" "\<not> Contains k ''..''" "NUL \<notin> set k" using assms(3) by (auto simp: validate_key_None)
  show "names_ok (r @ key_path k)" using kpath_names_ok [OF assms(2)] key_path_names [OF k(2,3)] by simp
  show "filepath_Join [root, k] = path_string (r @ key_path k)" by (rule filepath_Join_key [OF assms(1,2) k(1,2)])
qed

lemma write_prop_contained:
  assumes root: "HasPrefix root ''/''" "kpath root = Inr r" and k: "validate_key k = None"
    and c: "contained r old (lookup s)"
  shows "evolves (contained r old) s (snd (write_prop root k v s))"
proof -
  let ?I = "contained r old" and ?q = "r @ key_path k"
  note names = key_file(1) [OF root k] and p = key_file(2) [OF root k]
  have tmp: "(\<exists>t. tmp_path ?q = r @ t) \<or> tmp_path ?q = tmp_path r"
    by (cases "key_path k = []") (auto simp: tmp_path_append)
  note touch_tmp = contained_touch [OF _ tmp_path_names [OF names] tmp]
  have touch_q: "?I (m(?q := x))" if "?I m" for m x using contained_touch [OF that names] by auto
  obtain r1 s1 where 1: "os_MkdirAll (filepath_Dir (path_string ?q)) mode_0755 s = (r1, s1)" by force
  have "evolves ?I s (snd (os_MkdirAll (filepath_Dir (path_string ?q)) mode_0755 s))"
  proof (rule evolves_MkdirAll [where I = ?I, OF c])
    fix m p q t a
    assume m: "kpath (filepath_Dir (path_string ?q)) = Inr p" "?I m" "p = q @ t" "m q = None"
    have "butlast ?q = q @ t" using path_string_paths(2) [OF names] m(1,3) by simp
    then obtain t' where t': "?q = q @ t'"
      by (metis append.assoc append_Nil2 append_butlast_last_id butlast.simps(1))
    with names have "names_ok q" by (metis names_ok_simps(3))
    from contained_mkdir [OF m(2) this t' [symmetric] m(4)] show "?I (m(q \<mapsto> Directory a))" .
  qed
  with 1 have e1: "evolves ?I s s1" by simp
  obtain r2 s2 where 2: "os_WriteFile (path_string ?q @ ''.tmp'') v mode_0644 s1 = (r2, s2)" by force
  have "evolves ?I s1 (snd (os_WriteFile (path_string ?q @ ''.tmp'') v mode_0644 s1))"
    by (rule evolves_WriteFile [where I = ?I, OF evolvesD [OF e1]])
      (use path_string_paths(1) [OF names] touch_tmp in simp)
  with 2 e1 have e2: "evolves ?I s s2" using evolves_trans by simp
  obtain r3 s3 where 3: "os_Rename (path_string ?q @ ''.tmp'') (path_string ?q) s2 = (r3, s3)" by force
  have "evolves ?I s2 (snd (os_Rename (path_string ?q @ ''.tmp'') (path_string ?q) s2))"
    by (rule evolves_Rename [where I = ?I, OF evolvesD [OF e2]])
      (use path_string_paths(1) [OF names] kpath_path_string [OF names] touch_tmp touch_q evolvesD [OF e2] in simp)
  with 3 e2 have e3: "evolves ?I s s3" using evolves_trans by simp
  have "evolves ?I s3 (snd (os_Remove (path_string ?q @ ''.tmp'') s3))"
    by (rule evolves_Remove [where I = ?I, OF evolvesD [OF e3]])
      (use path_string_paths(1) [OF names] touch_tmp evolvesD [OF e3] in simp)
  with e3 have e4: "evolves ?I s (snd (os_Remove (path_string ?q @ ''.tmp'') s3))" by (rule evolves_trans)
  from 1 2 3 e1 e2 e3 e4 show ?thesis
    unfolding write_prop_def p Let_def by (cases r1; cases r2; cases r3) simp_all
qed

lemma write_props_contained:
  assumes "HasPrefix root ''/''" "kpath root = Inr r" and "\<forall>k \<in> set ks. validate_key k = None"
    and "contained r old (lookup s)"
  shows "evolves (contained r old) s (snd (write_props root props ks s))"
  using assms(3,4)
proof (induction ks arbitrary: s)
  case Nil
  then show ?case by (simp add: evolves_refl)
next
  case (Cons k ks)
  obtain e s1 where w: "write_prop root k (the (map_of props k)) s = (e, s1)" by force
  have e1: "evolves (contained r old) s s1"
    using write_prop_contained [OF assms(1,2) _ Cons.prems(2), of k "the (map_of props k)"] Cons.prems(1) w by simp
  have "evolves (contained r old) s (snd (write_props root props ks s1))"
    using evolves_trans [OF e1 Cons.IH [OF _ evolvesD [OF e1]]] Cons.prems(1) by simp
  with w e1 show ?case by (cases e) simp_all
qed

text \<open>How an apply is put together: an invariant of its parts is an invariant of it.\<close>

lemma evolves_propertiesApplyer:
  assumes mk: "evolves I s (snd (os_MkdirAll root mode_0755 s))"
    and rm: "\<And>s xs s'. I (lookup s) \<Longrightarrow> collectFiles root s = (Inr xs, s') \<Longrightarrow>
      evolves I s' (snd (remove_stale ((\<lambda>k. filepath_Join [root, k]) ` fst ` set (ps_Properties ps)) xs s'))"
    and wr: "\<And>s. I (lookup s) \<Longrightarrow> evolves I s (snd (write_props root (ps_Properties ps)
      (sort (remdups (map fst (ps_Properties ps)))) s))"
    and pr: "\<And>s. I (lookup s) \<Longrightarrow> evolves I s (pruneEmptyDirs root s)"
  shows "evolves I s (snd (propertiesApplyer root ps s))"
proof -
  let ?want = "(\<lambda>k. filepath_Join [root, k]) ` fst ` set (ps_Properties ps)"
  obtain r1 s1 where 1: "os_MkdirAll root mode_0755 s = (r1, s1)" by force
  with mk have e1: "evolves I s s1" by simp
  obtain r2 s2 where 2: "collectFiles root s1 = (r2, s2)" by force
  have "evolves I s1 s2" using evolves_collectFiles [where I = I, OF evolvesD [OF e1], of root] 2 by simp
  with e1 have e2: "evolves I s s2" by (rule evolves_trans)
  show ?thesis
  proof (cases "r1 = None \<and> (\<exists>xs. r2 = Inr xs)")
    case False
    with 1 2 e1 e2 show ?thesis unfolding propertiesApplyer_def by (cases r1; cases r2) (auto simp: Let_def)
  next
    case True
    then obtain xs where xs: "r2 = Inr xs" by blast
    obtain r3 s3 where 3: "remove_stale ?want xs s2 = (r3, s3)" by force
    with rm [OF evolvesD [OF e1] 2 [unfolded xs]] e2 have e3: "evolves I s s3" using evolves_trans by simp
    obtain r4 s4 where 4: "write_props root (ps_Properties ps) (sort (remdups (map fst (ps_Properties ps)))) s3 = (r4, s4)"
      by force
    with wr [OF evolvesD [OF e3]] e3 have e4: "evolves I s s4" using evolves_trans by simp
    have e5: "evolves I s (pruneEmptyDirs root s4)" using evolves_trans [OF e4 pr [OF evolvesD [OF e4]]] .
    from True 1 2 xs 3 4 e3 e4 e5 show ?thesis
      unfolding propertiesApplyer_def by (cases r3; cases r4) (simp_all add: Let_def)
  qed
qed

lemma propertiesApplyer_env: "same_env s (snd (propertiesApplyer root ps s))"
proof (rule evolves_env [where I = "\<lambda>_. True"], rule evolves_propertiesApplyer)
  let ?I = "\<lambda>_ :: path \<rightharpoonup> node. True"
  show "evolves ?I s (snd (os_MkdirAll root mode_0755 s))" by (rule MkdirAll_dirs) simp_all
  fix t xs t'
  show "evolves ?I t' (snd (remove_stale ((\<lambda>k. filepath_Join [root, k]) ` fst ` set (ps_Properties ps)) xs t'))"
    by (rule evolves_remove_stale) simp_all
  have "untorn root (ps_Properties ps) (lookup t) (lookup t)" by (simp add: untorn_def)
  from evolves_write_props [OF this, of "sort (remdups (map fst (ps_Properties ps)))"]
  show "evolves ?I t (snd (write_props root (ps_Properties ps) (sort (remdups (map fst (ps_Properties ps)))) t))"
    using evolves_mono [where J = ?I] by simp
  show "evolves ?I t (pruneEmptyDirs root t)"
    by (rule evolves_mono [OF evolves_pruneEmptyDirs [where Q = "\<lambda>_. True"]]) simp_all
qed

lemma untorn_prunes: "untorn root props old m \<Longrightarrow> prunes Q m m' \<Longrightarrow> untorn root props old m'"
  unfolding untorn_def by (blast dest: prunes_Some)

lemma contained_prunes:
  assumes "contained r old m" and "prunes (under r root) m m'" and "kpath root = Inr r"
  shows "contained r old m'"
  unfolding contained_def outside_kept_def
proof (intro conjI allI impI)
  fix p
  show "names_ok p" if "m' p \<noteq> None"
    using that prunes_Some [OF assms(2)] assms(1) by (auto simp: contained_def)
  have "m' p = m p \<or> (\<exists>t. p = r @ t)"
    using assms(2) under_kpath [OF assms(3)] unfolding prunes_def by fastforce
  moreover have "(\<exists>q. p = r @ q) \<or> p = tmp_path r \<or> m p = old p \<or>
      (old p = None \<and> (\<exists>a. m p = Some (Directory a)) \<and> (\<exists>q. r = p @ q))"
    using assms(1) by (simp add: contained_def outside_kept_def)
  ultimately show "(\<exists>q. p = r @ q) \<or> p = tmp_path r \<or> m' p = old p \<or>
      (old p = None \<and> (\<exists>a. m' p = Some (Directory a)) \<and> (\<exists>q. r = p @ q))" by auto
qed

subsection \<open>The mirror\<close>

lemma wf_mkdir_or_stat: "wf_map (lookup s) \<Longrightarrow> wf_map (lookup (snd (mkdir_or_stat p perm s)))"
proof -
  assume wf: "wf_map (lookup s)"
  have "wf_map (lookup (snd (os_Mkdir p perm s)))"
  proof (cases "fault_of s = None \<and> parent_error p s = None \<and> lookup s p = None")
    case True
    with wf have p: "p \<noteq> []" using wf_root by fastforce
    then obtain n where "lookup s (butlast p) = Some n" "is_dir n"
      using True by (auto simp: parent_error_def dest!: walk_Inr split: sum.splits if_splits)
    with True wf p show ?thesis by (auto simp: os_Mkdir_def wf_map_def)
  qed (use wf in \<open>auto simp: os_Mkdir_def split: option.splits\<close>)
  moreover obtain r s1 where m: "os_Mkdir p perm s = (r, s1)" by force
  moreover have "lookup (snd (stat_path p s1)) = lookup s1" by (auto simp: stat_path_def split: option.splits)
  ultimately show ?thesis
    by (cases r) (auto simp: mkdir_or_stat_def split: prod.splits sum.splits)
qed

lemma wf_mkdir_all: "wf_map (lookup s) \<Longrightarrow> wf_map (lookup (snd (mkdir_all rp perm s)))"
proof (induction rp arbitrary: s)
  case Nil
  then show ?case using wf_mkdir_or_stat [of "tick s" "[]" perm]
    by (auto simp: stat_path_def split: option.splits sum.splits)
next
  case (Cons c rp)
  obtain r1 s1 where 1: "stat_path (rev (c # rp)) s = (r1, s1)" by force
  then have "os_tree s1 = os_tree s" by (auto simp: stat_path_def split: option.splits)
  with Cons.prems have wf1: "wf_map (lookup s1)" by simp
  obtain r2 s2 where 2: "(if rp = [] then (None, s1) else mkdir_all rp perm s1) = (r2, s2)" by force
  with Cons.IH [OF wf1] wf1 have wf2: "wf_map (lookup s2)" by (auto split: if_splits)
  with 1 2 wf1 wf_mkdir_or_stat [OF wf2] show ?case
    by (cases r1; cases r2) (auto simp del: rev.simps)
qed

lemma MkdirAll_keeps_healthy: "healthy s \<Longrightarrow> healthy (snd (os_MkdirAll name perm s))"
proof -
  assume h: "healthy s"
  have "evolves (\<lambda>m. True) s (snd (os_MkdirAll name perm s))" by (rule evolves_MkdirAll) auto
  then have "calm (snd (os_MkdirAll name perm s))" using h same_env_calm evolves_env unfolding healthy_def by blast
  moreover have "wf_map (lookup (snd (os_MkdirAll name perm s)))"
    using h wf_mkdir_all by (auto simp: os_MkdirAll_def healthy_def split: sum.splits)
  ultimately show ?thesis by (simp add: healthy_def)
qed

lemma Remove_healthy:
  assumes "healthy s"
  shows "healthy (snd (os_Remove name s))"
    and "kpath name = Inr q \<Longrightarrow> fst (os_Remove name s) \<in> {None, Some ENOENT} \<Longrightarrow> lookup (snd (os_Remove name s)) q = None"
    and "lookup (snd (os_Remove name s)) p = lookup s p \<or> lookup (snd (os_Remove name s)) p = None"
proof -
  have wf: "wf_map (lookup s)" and calm: "calm s" using assms by (auto simp: healthy_def)
  show "healthy (snd (os_Remove name s))"
  proof (cases "resolve name s")
    case (Inl e)
    with calm assms show ?thesis by (simp add: os_Remove_def)
  next
    case (Inr pn)
    obtain q n where pn: "pn = (q, n)" by force
    with Inr have look: "lookup s q = Some n" using resolve_Inr by blast
    have "lookup s (q @ [c]) = None" if "\<not> (is_dir n \<and> children q (os_tree s) \<noteq> [])" for c
      using that healthy_leaf [OF wf look] children_Nil_iff [of q "os_tree s"] by auto
    with wf_del [OF wf, of q] Inr pn calm assms show ?thesis by (auto simp: os_Remove_def healthy_def)
  qed
  show "lookup (snd (os_Remove name s)) q = None"
    if "kpath name = Inr q" "fst (os_Remove name s) \<in> {None, Some ENOENT}"
  proof (cases "lookup s q")
    case None
    then show ?thesis
      using that by (auto simp: os_Remove_def dest!: resolve_Inr split: option.splits sum.splits)
  next
    case (Some n)
    with wf_resolve [OF wf that(1)] calm that(2) show ?thesis
      by (auto simp: os_Remove_def split: if_splits)
  qed
  show "lookup (snd (os_Remove name s)) p = lookup s p \<or> lookup (snd (os_Remove name s)) p = None"
    by (auto simp: os_Remove_def split: option.splits sum.splits)
qed

lemma remove_stale_healthy:
  "remove_stale want xs s = (None, s') \<Longrightarrow> healthy s \<Longrightarrow>
     (\<forall>p. lookup s' p = lookup s p \<or> lookup s' p = None) \<and>
     (\<forall>x q. x \<in> set xs \<longrightarrow> x \<notin> want \<longrightarrow> kpath x = Inr q \<longrightarrow> lookup s' q = None)"
proof (induction xs arbitrary: s)
  case (Cons x xs)
  show ?case
  proof (cases "x \<in> want")
    case False
    obtain r s1 where rm: "os_Remove x s = (r, s1)" by force
    with Cons.prems False have r: "r \<in> {None, Some ENOENT}" and w: "remove_stale want xs s1 = (None, s')"
      by (auto split: option.splits if_splits)
    note h = Remove_healthy [OF Cons.prems(2), of x, unfolded rm prod.sel]
    note IH = conjunct1 [OF Cons.IH [OF w h(1)]] conjunct2 [OF Cons.IH [OF w h(1)]]
    have "lookup s' p = lookup s p \<or> lookup s' p = None" for p
      using IH(1) h(3) [of p] by metis
    moreover have "lookup s' q = None" if "kpath x = Inr q" for q
      using h(2) [OF that r] IH(1) by metis
    ultimately show ?thesis using IH(2) by auto
  qed (use Cons in auto)
qed simp

lemma depth_bound: "lookup s p = Some n \<Longrightarrow> length p \<le> depth s"
proof -
  have "length q \<le> foldr max (map (length \<circ> fst) t) 0" if "(q, m) \<in> set t" for q m and t :: tree
    using that by (induction t) (auto simp: max.coboundedI2)
  then show "lookup s p = Some n \<Longrightarrow> length p \<le> depth s"
    unfolding depth_def by (blast dest: map_of_SomeD)
qed

lemma walk_entries_member:
  "walk_entries fuel p es s = (Inr xs, s') \<Longrightarrow> (c, n) \<in> set es \<Longrightarrow>
     \<exists>s1 ys s2. walk_dir fuel (filepath_Join [p, c]) n s1 = (Inr ys, s2) \<and> os_tree s1 = os_tree s \<and> set ys \<subseteq> set xs"
proof (induction es arbitrary: s xs s')
  case (Cons e es)
  obtain c' n' where e: "e = (c', n')" by force
  obtain r s1 where wd: "walk_dir fuel (filepath_Join [p, c']) n' s = (r, s1)" by force
  with Cons.prems(1) e obtain ys where r: "r = Inr ys" by (cases r) auto
  with wd e Cons.prems(1) obtain zs where ws: "walk_entries fuel p es s1 = (Inr zs, s')" and xs: "xs = ys @ zs"
    by (auto split: prod.splits sum.splits)
  have s1: "os_tree s1 = os_tree s" using walk_tree(1) [of fuel "filepath_Join [p, c']" n' s] wd by simp
  show ?case
  proof (cases "(c, n) = e")
    case True
    with wd r e xs show ?thesis by (intro exI [of _ s] exI [of _ ys] exI [of _ s1]) auto
  next
    case False
    with Cons.IH [OF ws] Cons.prems(2) s1 xs show ?thesis by fastforce
  qed
qed simp

text \<open>The walk misses no file, if its fuel exceeds the depth of the tree.\<close>

lemma walk_complete:
  assumes "wf_map (lookup s)" and "\<forall>q. lookup s q \<noteq> None \<longrightarrow> names_ok q"
    and "HasPrefix p ''/''" "kpath p = Inr cs" and "lookup s cs = Some n"
    and "walk_dir fuel p n s = (Inr xs, s')" and "lookup s (cs @ t) = Some (Reg a c)" "t \<noteq> []"
    and "filepath_Ext (path_string (cs @ t)) \<noteq> ''.tmp''" and "length t < fuel"
  shows "path_string (cs @ t) \<in> set xs"
  using assms
proof (induction t arbitrary: s p cs n fuel xs s')
  case (Cons d t)
  note prems = Cons.prems
  obtain f where f: "fuel = Suc f" using prems(10) by (cases fuel) auto
  obtain n' where "lookup s cs = Some n'" "is_dir n'" using wf_ancestor [OF prems(1,7,8)] by blast
  with prems(5) have dir: "is_dir n" by simp
  obtain r s1 where rd: "os_ReadDir p s = (r, s1)" by force
  with prems(6) f dir obtain es where r: "r = Inr es" and w: "walk_entries f p es s1 = (Inr xs, s')"
    by (cases r) auto
  have s1: "os_tree s1 = os_tree s" using ReadDir_snd [of p s] rd by simp
  obtain n1 where n1: "lookup s (cs @ [d]) = Some n1"
    using prems(7) wf_ancestor [OF prems(1), of "cs @ [d]" t "Reg a c"] by (cases "t = []") auto
  then have "(d, n1) \<in> set es" using ReadDir_entry [OF rd [unfolded r] prems(4)] by simp
  from walk_entries_member [OF w this] s1 obtain s2 ys s3 where
    wd: "walk_dir f (filepath_Join [p, d]) n1 s2 = (Inr ys, s3)" and s2: "os_tree s2 = os_tree s" and sub: "set ys \<subseteq> set xs"
    by auto
  have nd: "names_ok (cs @ [d])" using n1 prems(2) by blast
  then have j: "filepath_Join [p, d] = path_string (cs @ [d])" using filepath_Join_entry [OF prems(3,4), of d] by simp
  show ?case
  proof (cases "t = []")
    case True
    with n1 prems(7) have "n1 = Reg a c" by simp
    moreover obtain f' where "f = Suc f'" using prems(10) f by (cases f) auto
    ultimately have "ys = [path_string (cs @ [d])]" using wd j prems(9) True by (auto simp: keep_file_def)
    with sub True show ?thesis by simp
  next
    case False
    have "path_string ((cs @ [d]) @ t) \<in> set ys"
      by (rule Cons.IH [where s = s2 and p = "path_string (cs @ [d])" and n = n1 and fuel = f and s' = s3])
        (use prems False s2 n1 nd kpath_path_string [OF nd] wd j f in simp_all)
    with sub show ?thesis by auto
  qed
qed simp

text \<open>The write of one key leaves every file alone that is neither at its path nor its temporary file.\<close>

lemma write_prop_keeps:
  assumes root: "HasPrefix root ''/''" "kpath root = Inr r" and k: "validate_key k = None"
    and p: "lookup s p = Some n" "p \<noteq> r @ key_path k" "p \<noteq> tmp_path (r @ key_path k)"
  shows "lookup (snd (write_prop root k v s)) p = Some n"
proof -
  let ?q = "r @ key_path k" and ?I = "\<lambda>m. m p = Some n"
  note names = key_file(1) [OF root k] and path = key_file(2) [OF root k]
  note ks = path_string_paths(1) [OF names] kpath_path_string [OF names]
  obtain r1 s1 where 1: "os_MkdirAll (filepath_Dir (path_string ?q)) mode_0755 s = (r1, s1)" by force
  have "evolves ?I s (snd (os_MkdirAll (filepath_Dir (path_string ?q)) mode_0755 s))"
    by (rule evolves_MkdirAll) (use p in auto)
  with 1 have s1: "lookup s1 p = Some n" by (simp add: evolves_def)
  obtain r2 s2 where 2: "os_WriteFile (path_string ?q @ ''.tmp'') v mode_0644 s1 = (r2, s2)" by force
  from keep_WriteFile [OF ks(1) p(3) [symmetric] s1, of v mode_0644] 2
  have s2: "lookup s2 p = Some n" by (simp add: evolves_def)
  obtain r3 s3 where 3: "os_Rename (path_string ?q @ ''.tmp'') (path_string ?q) s2 = (r3, s3)" by force
  have "evolves ?I s2 (snd (os_Rename (path_string ?q @ ''.tmp'') (path_string ?q) s2))"
    by (rule evolves_Rename) (use p s2 ks in auto)
  with 3 have s3: "lookup s3 p = Some n" by (simp add: evolves_def)
  from keep_Remove [OF ks(1) p(3) [symmetric] s3]
  have "lookup (snd (os_Remove (path_string ?q @ ''.tmp'') s3)) p = Some n" by (simp add: evolves_def)
  with 1 2 3 s1 s2 s3 show ?thesis
    unfolding write_prop_def path Let_def by (cases r1; cases r2; cases r3) simp_all
qed

lemma write_prop_writes:
  assumes root: "HasPrefix root ''/''" "kpath root = Inr r" and k: "validate_key k = None"
    and ok: "write_prop root k v s = (None, s')"
  shows "\<exists>a. lookup s' (r @ key_path k) = Some (Reg a v)"
proof -
  let ?q = "r @ key_path k"
  note names = key_file(1) [OF root k] and path = key_file(2) [OF root k]
  note ks = path_string_paths(1) [OF names] kpath_path_string [OF names]
  from ok obtain s1 s2 where w: "os_WriteFile (path_string ?q @ ''.tmp'') v mode_0644 s1 = (None, s2)"
    and rn: "os_Rename (path_string ?q @ ''.tmp'') (path_string ?q) s2 = (None, s')"
    unfolding write_prop_def path Let_def by (auto split: prod.splits option.splits)
  from WriteFile_ok(1) [OF w ks(1)] obtain a where "lookup s2 (tmp_path ?q) = Some (Reg a v)" by auto
  with Rename_ok [OF rn ks tmp_path_neq] tmp_path_neq [of ?q] show ?thesis by auto
qed

text \<open>A key in the form \<open>filepath.Clean\<close> would leave it in.\<close>

definition canonical :: "string \<Rightarrow> bool" where
  "canonical k \<longleftrightarrow> key_path k \<noteq> [] \<and> k = Join (key_path k) ''/''"

lemma Join_tmp: "cs \<noteq> [] \<Longrightarrow> Join (tmp_path cs) ''/'' = Join cs ''/'' @ ''.tmp''"
proof (induction cs)
  case (Cons c cs)
  then show ?case by (cases cs) (auto simp: tmp_path_def)
qed simp

lemma canonical_paths:
  assumes "canonical k" "canonical k'"
  shows "r @ key_path k = r @ key_path k' \<Longrightarrow> k = k'"
    and "r @ key_path k = tmp_path (r @ key_path k') \<Longrightarrow> k = k' @ ''.tmp''"
proof -
  show "k = k'" if "r @ key_path k = r @ key_path k'"
    using that assms by (simp add: canonical_def)
  show "k = k' @ ''.tmp''" if "r @ key_path k = tmp_path (r @ key_path k')"
  proof -
    from that assms have "key_path k = tmp_path (key_path k')" by (simp add: canonical_def tmp_path_append)
    with assms Join_tmp [of "key_path k'"] show ?thesis by (simp add: canonical_def)
  qed
qed

lemma less_suffix: "(k :: string) < k @ c # t"
  by (induction k) auto

lemma write_props_keeps:
  assumes root: "HasPrefix root ''/''" "kpath root = Inr r" and "\<forall>k' \<in> set ks. validate_key k' = None \<and> canonical k' \<and> k < k'"
    and "canonical k" and "lookup s (r @ key_path k) = Some n"
  shows "lookup (snd (write_props root props ks s)) (r @ key_path k) = Some n"
  using assms(3,5)
proof (induction ks arbitrary: s)
  case (Cons k' ks)
  obtain e s1 where w: "write_prop root k' (the (map_of props k')) s = (e, s1)" by force
  have k': "validate_key k' = None" "canonical k'" "k < k'" using Cons.prems(1) by auto
  have "r @ key_path k \<noteq> r @ key_path k'" using canonical_paths(1) [OF assms(4) k'(2)] k'(3) by blast
  moreover have "r @ key_path k \<noteq> tmp_path (r @ key_path k')"
    using canonical_paths(2) [OF assms(4) k'(2)] k'(3) less_suffix [of k' "CHR ''.''" "''tmp''"] by auto
  ultimately have "lookup s1 (r @ key_path k) = Some n"
    using write_prop_keeps [OF root k'(1) Cons.prems(2)] w by (metis snd_conv)
  with Cons.IH [of s1] Cons.prems(1) w show ?case by (cases e) simp_all
qed simp

lemma write_props_writes:
  assumes root: "HasPrefix root ''/''" "kpath root = Inr r"
    and "\<forall>k \<in> set ks. validate_key k = None \<and> canonical k" and "sorted ks" "distinct ks"
    and "write_props root props ks s = (None, s')" and "k \<in> set ks"
  shows "\<exists>a. lookup s' (r @ key_path k) = Some (Reg a (the (map_of props k)))"
  using assms(3-7)
proof (induction ks arbitrary: s)
  case (Cons k' ks)
  obtain e s1 where w: "write_prop root k' (the (map_of props k')) s = (e, s1)" by force
  with Cons.prems(4) have e: "e = None" and ws: "write_props root props ks s1 = (None, s')" by (cases e; simp)+
  show ?case
  proof (cases "k = k'")
    case True
    obtain a where a: "lookup s1 (r @ key_path k) = Some (Reg a (the (map_of props k)))"
      using write_prop_writes [OF root _ w [unfolded e]] Cons.prems(1) True by auto
    have "\<forall>k'' \<in> set ks. validate_key k'' = None \<and> canonical k'' \<and> k < k''"
      using Cons.prems True by (fastforce simp: order.order_iff_strict)
    from write_props_keeps [OF root this _ a, of props] Cons.prems(1) True ws show ?thesis by auto
  next
    case False
    with Cons.IH [OF _ _ _ ws] Cons.prems show ?thesis by simp
  qed
qed simp

text \<open>Files the tree may hold: the properties, and temporary ones.\<close>

definition only_props :: "path \<Rightarrow> string set \<Rightarrow> (path \<rightharpoonup> node) \<Rightarrow> bool" where
  "only_props r keys m \<longleftrightarrow> (\<forall>q a c. m (r @ q) = Some (Reg a c) \<longrightarrow>
     filepath_Ext (path_string (r @ q)) = ''.tmp'' \<or> (\<exists>k \<in> keys. q = key_path k))"

lemma path_string_tmp: "path_string (tmp_path cs) = path_string cs @ ''.tmp''"
  using Join_tmp [of cs] by (cases "cs = []") (simp_all add: path_string_def tmp_path_def)

lemma Ext_tmp: "filepath_Ext (s @ ''.tmp'') = ''.tmp''"
  by (simp add: filepath_Ext_def)

lemma Ext_slash: "filepath_Ext (a @ CHR ''/'' # b) = filepath_Ext b"
proof -
  let ?P = "\<lambda>c. c \<noteq> CHR ''/'' \<and> c \<noteq> CHR ''.''"
  show ?thesis
  proof (cases "\<forall>c \<in> set b. ?P c")
    case True
    then have "dropWhile ?P (rev b @ CHR ''/'' # rev a) = CHR ''/'' # rev a" and "dropWhile ?P (rev b) = []"
      by (auto simp: dropWhile_append3)
    then show ?thesis unfolding filepath_Ext_def rev_append rev.simps append_assoc by (simp only: append.simps) simp
  next
    case False
    then have "dropWhile ?P (rev b @ xs) = dropWhile ?P (rev b) @ xs" and "takeWhile ?P (rev b @ xs) = takeWhile ?P (rev b)"
      and "dropWhile ?P (rev b) \<noteq> []" for xs
      by (auto simp: dropWhile_append1 takeWhile_append1)
    then show ?thesis by (auto simp: filepath_Ext_def split: list.splits)
  qed
qed

lemma path_string_Ext:
  assumes "canonical k"
  shows "filepath_Ext (path_string (r @ key_path k)) = filepath_Ext k"
proof -
  have "\<exists>a. path_string (r @ ds) = a @ CHR ''/'' # Join ds ''/''" if "ds \<noteq> []" for ds
  proof (induction r)
    case Nil
    show ?case by (auto simp: path_string_def)
  next
    case (Cons c r)
    then obtain a where "path_string (r @ ds) = a @ CHR ''/'' # Join ds ''/''" by blast
    moreover obtain x xs where "r @ ds = x # xs" using \<open>ds \<noteq> []\<close> by (cases "r @ ds") auto
    ultimately have "path_string ((c # r) @ ds) = (CHR ''/'' # c @ a) @ CHR ''/'' # Join ds ''/''"
      by (simp add: path_string_def)
    then show ?case by blast
  qed
  with assms obtain a where "path_string (r @ key_path k) = a @ CHR ''/'' # k" by (metis canonical_def)
  then show ?thesis by (simp add: Ext_slash)
qed

lemma only_props_updates:
  assumes "only_props r keys m"
  shows "only_props r keys (m(p := None))" and "only_props r keys (m(p \<mapsto> Directory a))"
    and "only_props r keys (m(tmp_path cs \<mapsto> n))" and "k \<in> keys \<Longrightarrow> only_props r keys (m(r @ key_path k \<mapsto> n))"
  using assms Ext_tmp [of "path_string cs"] unfolding only_props_def
  by (auto simp flip: path_string_tmp)

lemma write_prop_only:
  assumes root: "HasPrefix root ''/''" "kpath root = Inr r" and k: "validate_key k = None" and "k \<in> keys"
    and I: "only_props r keys (lookup s)"
  shows "only_props r keys (lookup (snd (write_prop root k v s)))"
proof -
  let ?q = "r @ key_path k" and ?I = "only_props r keys"
  note names = key_file(1) [OF root k] and path = key_file(2) [OF root k]
  note ks = path_string_paths(1) [OF names] kpath_path_string [OF names]
  obtain r1 s1 where 1: "os_MkdirAll (filepath_Dir (path_string ?q)) mode_0755 s = (r1, s1)" by force
  from MkdirAll_dirs [where I = ?I, OF I only_props_updates(2)] 1 have s1: "?I (lookup s1)"
    by (metis evolvesD snd_conv)
  obtain r2 s2 where 2: "os_WriteFile (path_string ?q @ ''.tmp'') v mode_0644 s1 = (r2, s2)" by force
  have "evolves ?I s1 (snd (os_WriteFile (path_string ?q @ ''.tmp'') v mode_0644 s1))"
    by (rule evolves_WriteFile [where I = ?I, OF s1]) (auto simp: ks intro: only_props_updates(3))
  with 2 have s2: "?I (lookup s2)" by (simp add: evolvesD)
  obtain r3 s3 where 3: "os_Rename (path_string ?q @ ''.tmp'') (path_string ?q) s2 = (r3, s3)" by force
  have "evolves ?I s2 (snd (os_Rename (path_string ?q @ ''.tmp'') (path_string ?q) s2))"
    by (rule evolves_Rename [where I = ?I, OF s2])
      (use ks only_props_updates(1) [OF only_props_updates(4) [OF s2 assms(4)]] in simp)
  with 3 have s3: "?I (lookup s3)" by (simp add: evolvesD)
  have "?I (lookup (snd (os_Remove (path_string ?q @ ''.tmp'') s3)))"
    by (rule evolvesD [OF evolves_remove [where I = ?I, OF s3 only_props_updates(1)]])
  with 1 2 3 s1 s2 s3 show ?thesis
    unfolding write_prop_def path Let_def by (cases r1; cases r2; cases r3) simp_all
qed

lemma write_props_only:
  assumes root: "HasPrefix root ''/''" "kpath root = Inr r" and "\<forall>k \<in> set ks. validate_key k = None \<and> k \<in> keys"
    and "only_props r keys (lookup s)"
  shows "only_props r keys (lookup (snd (write_props root props ks s)))"
  using assms(3,4)
proof (induction ks arbitrary: s)
  case (Cons k ks)
  obtain e s1 where w: "write_prop root k (the (map_of props k)) s = (e, s1)" by force
  with write_prop_only [OF root _ _ Cons.prems(2), of k "the (map_of props k)"] Cons.prems(1)
  have "only_props r keys (lookup s1)" by simp
  with Cons.IH [of s1] Cons.prems(1) w show ?case by (cases e) simp_all
qed simp

lemma collectFiles_complete:
  assumes "HasPrefix root ''/''" "kpath root = Inr r" and "wf_map (lookup s)" "\<forall>q. lookup s q \<noteq> None \<longrightarrow> names_ok q"
    and "collectFiles root s = (Inr xs, s')" and "lookup s (r @ t) = Some (Reg a c)" "t \<noteq> []"
    and "filepath_Ext (path_string (r @ t)) \<noteq> ''.tmp''"
  shows "path_string (r @ t) \<in> set xs"
proof -
  obtain st s1 where st: "os_Stat root s = (st, s1)" by force
  with assms(5) obtain n where n: "st = Inr n" by (cases st) (auto simp: collectFiles_def)
  have "lookup s r = Some n" and s1: "os_tree s1 = os_tree s"
    using st n assms(2) by (auto simp: os_Stat_def dest!: resolve_Inr split: option.splits sum.splits)
  moreover have "walk_dir (Suc (Suc (depth s))) root n s1 = (Inr xs, s')"
    using assms(5) st n by (simp add: collectFiles_def del: walk_dir.simps)
  moreover have "length t < Suc (Suc (depth s))" using depth_bound [OF assms(6)] by simp
  ultimately show ?thesis using walk_complete [of s1 root r n _ xs s' t a c] assms s1
    by (simp del: walk_dir.simps)
qed

lemma stale_removed:
  assumes root: "HasPrefix root ''/''" "kpath root = Inr r" and h: "healthy s" and dir: "dir_at s r"
    and names: "\<forall>q. lookup s q \<noteq> None \<longrightarrow> names_ok q" and keys: "\<forall>k \<in> keys. validate_key k = None"
    and c: "collectFiles root s = (Inr xs, s1)"
    and rm: "remove_stale ((\<lambda>k. filepath_Join [root, k]) ` keys) xs s1 = (None, s2)"
  shows "only_props r keys (lookup s2)"
  unfolding only_props_def
proof (intro allI impI)
  fix q a d
  assume q: "lookup s2 (r @ q) = Some (Reg a d)"
  have t1: "lookup s1 = lookup s" and "faults s1 = faults s"
    using c evolves_collectFiles [where I = "\<lambda>m. m = lookup s" and root = root and s = s]
    by (auto simp: evolves_def same_env_def)
  then have h1: "healthy s1" using h by (simp add: healthy_def calm_def)
  note stale = remove_stale_healthy [OF rm h1]
  have look: "lookup s (r @ q) = Some (Reg a d)"
    using spec [OF conjunct1 [OF stale], of "r @ q"] q t1 by auto
  show "filepath_Ext (path_string (r @ q)) = ''.tmp'' \<or> (\<exists>k \<in> keys. q = key_path k)"
  proof (cases "filepath_Ext (path_string (r @ q)) = ''.tmp''")
    case False
    have nq: "names_ok (r @ q)" using names look by blast
    have "q \<noteq> []" using look dir by (auto simp: dir_at_def)
    with collectFiles_complete [OF root _ names c look _ False] h have "path_string (r @ q) \<in> set xs"
      by (simp add: healthy_def)
    with stale q kpath_path_string [OF nq] have "path_string (r @ q) \<in> (\<lambda>k. filepath_Join [root, k]) ` keys"
      by fastforce
    then obtain k where k: "k \<in> keys" "path_string (r @ q) = path_string (r @ key_path k)"
      using key_file(2) [OF root] keys by auto
    with path_string_inject [OF nq key_file(1) [OF root]] keys show ?thesis by auto
  qed simp
qed

subsection \<open>A directory in the way of a key\<close>

lemma write_prop_dir:
  assumes d: "lookup s p = Some (Directory a)"
  shows "lookup (snd (write_prop root k v s)) p = Some (Directory a)"
    and "kpath (filepath_Join [root, k]) = Inr p \<Longrightarrow> fst (write_prop root k v s) \<noteq> None"
proof -
  let ?f = "filepath_Join [root, k]"
  have mk: "lookup (snd (os_MkdirAll name mode_0755 s)) p = Some (Directory a)" for name
    by (rule evolvesD [OF evolves_MkdirAll [where I = "\<lambda>m. m p = Some (Directory a)"]]) (use d in auto)
  have wr: "lookup (snd (os_WriteFile name v mode_0644 t)) p = Some (Directory a)"
    and "fst (os_WriteFile name v mode_0644 t) = None \<Longrightarrow> kpath name \<noteq> Inr p"
    if "lookup t p = Some (Directory a)" for name t
    using that by (auto simp: os_WriteFile_def open_trunc_def write_data_def split: sum.splits option.splits
        node.splits fault.splits)
  moreover have "lookup (snd (os_Rename old new t)) p = Some (Directory a)"
    and "kpath new = Inr p \<Longrightarrow> fst (os_Rename old new t) \<noteq> None"
    if "lookup t p = Some (Directory a)" for old new t
    using that by (auto simp: os_Rename_def Let_def lookup_rename dest!: resolve_Inr split: option.splits sum.splits if_splits)
  moreover have "lookup (snd (os_Remove name t)) p = Some (Directory a)"
    if "lookup t p = Some (Directory a)" and "kpath name \<noteq> Inr p" for name t
    using that by (auto simp: os_Remove_def dest!: resolve_Inr split: option.splits sum.splits if_splits)
  moreover obtain r1 s1 where 1: "os_MkdirAll (filepath_Dir ?f) mode_0755 s = (r1, s1)" by force
  moreover obtain r2 s2 where 2: "os_WriteFile (?f @ ''.tmp'') v mode_0644 s1 = (r2, s2)" by force
  moreover obtain r3 s3 where 3: "os_Rename (?f @ ''.tmp'') ?f s2 = (r3, s3)" by force
  ultimately have s1: "lookup s1 p = Some (Directory a)" and s2: "lookup s2 p = Some (Directory a)"
    and s3: "lookup s3 p = Some (Directory a)" and r3: "kpath ?f = Inr p \<Longrightarrow> r3 \<noteq> None"
    and s4: "r2 = None \<Longrightarrow> lookup (snd (os_Remove (?f @ ''.tmp'') s3)) p = Some (Directory a)"
    using mk by (metis fst_conv snd_conv)+
  show "lookup (snd (write_prop root k v s)) p = Some (Directory a)"
    unfolding write_prop_def Let_def using 1 2 3 s1 s2 s3 s4 by (cases r1; cases r2; cases r3) simp_all
  show "fst (write_prop root k v s) \<noteq> None" if "kpath ?f = Inr p"
    unfolding write_prop_def Let_def using 1 2 3 r3 [OF that] by (cases r1; cases r2; cases r3) simp_all
qed

lemma write_props_dir:
  assumes "lookup s p = Some (Directory a)"
  shows "lookup (snd (write_props root props ks s)) p = Some (Directory a) \<and>
    (k \<in> set ks \<longrightarrow> kpath (filepath_Join [root, k]) = Inr p \<longrightarrow> fst (write_props root props ks s) \<noteq> None)"
  using assms
proof (induction ks arbitrary: s)
  case (Cons k' ks)
  obtain e s1 where w: "write_prop root k' (the (map_of props k')) s = (e, s1)" by force
  note d = write_prop_dir [OF Cons.prems, of root k' "the (map_of props k')", unfolded w prod.sel]
  from d Cons.IH [OF d(1)] show ?case unfolding write_props.simps w by (cases e) auto
qed simp

subsection \<open>Fuel\<close>

lemma child_path:
  assumes "HasPrefix p ''/''" "kpath p = Inr cs" and "names_ok (cs @ [c])"
  shows "HasPrefix (filepath_Join [p, c]) ''/''" "kpath (filepath_Join [p, c]) = Inr (cs @ [c])"
  using filepath_Join_entry [OF assms(1,2), of c] kpath_path_string [OF assms(3)] assms(3) by simp_all

lemma walk_fuel:
  "HasPrefix p ''/'' \<Longrightarrow> kpath p = Inr cs \<Longrightarrow> lookup s cs = Some n \<Longrightarrow> (\<forall>q. lookup s q \<noteq> None \<longrightarrow> names_ok q) \<Longrightarrow>
     (\<forall>q. lookup s q \<noteq> None \<longrightarrow> length q \<le> D) \<Longrightarrow> D < fuel + length cs \<Longrightarrow>
     walk_dir (fuel + j) p n s = walk_dir fuel p n s"
  "HasPrefix p ''/'' \<Longrightarrow> kpath p = Inr cs \<Longrightarrow> (\<forall>(c, n) \<in> set es. lookup s (cs @ [c]) = Some n) \<Longrightarrow>
     (\<forall>q. lookup s q \<noteq> None \<longrightarrow> names_ok q) \<Longrightarrow> (\<forall>q. lookup s q \<noteq> None \<longrightarrow> length q \<le> D) \<Longrightarrow> D < Suc (fuel + length cs) \<Longrightarrow>
     walk_entries (fuel + j) p es s = walk_entries fuel p es s"
proof (induction fuel p n s and fuel p es s arbitrary: cs and cs rule: walk_dir_walk_entries.induct)
  case (1 p n s)
  then show ?case by fastforce
next
  case (2 fuel p n s)
  obtain r s1 where rd: "os_ReadDir p s = (r, s1)" by force
  have s1: "os_tree s1 = os_tree s" using ReadDir_snd [of p s] rd by simp
  show ?case
  proof (cases "\<exists>es. r = Inr es \<and> is_dir n")
    case True
    then obtain es where r: "r = Inr es" "is_dir n" by blast
    have "\<forall>(c, n) \<in> set es. lookup s1 (cs @ [c]) = Some n"
      using ReadDir_entry [OF rd [unfolded r] 2(3)] s1 by auto
    with 2(1) [OF _ rd [symmetric] r(1) 2(2,3)] r(2) 2(5-7) s1
    have "walk_entries (fuel + j) p es s1 = walk_entries fuel p es s1" by simp
    with rd r show ?thesis by simp
  qed (use rd in \<open>cases r; auto\<close>)
next
  case (4 fuel p c n es s)
  have look: "lookup s (cs @ [c]) = Some n" using 4(5) by simp
  then have "names_ok (cs @ [c])" using 4(6) by blast
  note cp = child_path [OF 4(3,4) this]
  have w: "walk_dir (fuel + j) (filepath_Join [p, c]) n s = walk_dir fuel (filepath_Join [p, c]) n s"
    using 4(1) [OF cp look 4(6,7)] 4(8) by simp
  obtain r s1 where wd: "walk_dir fuel (filepath_Join [p, c]) n s = (r, s1)" by force
  then have s1: "os_tree s1 = os_tree s" using walk_tree(1) [of fuel "filepath_Join [p, c]" n s] by simp
  show ?case
  proof (cases r)
    case (Inr xs)
    have "walk_entries (fuel + j) p es s1 = walk_entries fuel p es s1"
      using 4(2) [OF wd [symmetric] Inr 4(3,4)] 4(5-8) s1 by simp
    with Inr w wd show ?thesis by simp
  qed (use w wd in simp)
qed simp

lemma prune_fuel:
  assumes names: "\<forall>q. old q \<noteq> None \<longrightarrow> names_ok q" and D: "\<forall>q. old q \<noteq> None \<longrightarrow> length q \<le> D"
  shows "HasPrefix dir ''/'' \<Longrightarrow> kpath dir = Inr cs \<Longrightarrow> old cs \<noteq> None \<Longrightarrow> prunes (\<lambda>_. True) old (lookup s) \<Longrightarrow>
     D < fuel + length cs \<Longrightarrow> prune (fuel + j) root dir s = prune fuel root dir s"
  and "HasPrefix dir ''/'' \<Longrightarrow> kpath dir = Inr cs \<Longrightarrow> (\<forall>(c, n) \<in> set es. old (cs @ [c]) \<noteq> None) \<Longrightarrow>
     prunes (\<lambda>_. True) old (lookup s) \<Longrightarrow> D < Suc (fuel + length cs) \<Longrightarrow>
     prune_entries (fuel + j) root dir es s = prune_entries fuel root dir es s"
proof (induction fuel root dir s and fuel root dir es s arbitrary: cs and cs rule: prune_prune_entries.induct)
  case (1 root dir s)
  then show ?case using D by fastforce
next
  case (2 fuel root dir s)
  obtain r s1 where rd: "os_ReadDir dir s = (r, s1)" by force
  have s1: "os_tree s1 = os_tree s" using ReadDir_snd [of dir s] rd by simp
  show ?case
  proof (cases r)
    case (Inr es)
    have "\<forall>(c, n) \<in> set es. old (cs @ [c]) \<noteq> None"
      using ReadDir_entry [OF rd [unfolded Inr] 2(3)] prunes_Some [OF 2(5)] by fastforce
    with 2(1) [OF rd [symmetric] Inr 2(2,3)] 2(5,6) s1
    have "prune_entries (fuel + j) root dir es s1 = prune_entries fuel root dir es s1" by simp
    with rd Inr show ?thesis by simp
  qed (use rd in simp)
next
  case (4 fuel root dir c n es s)
  have look: "old (cs @ [c]) \<noteq> None" using 4(5) by simp
  then have "names_ok (cs @ [c])" using names by blast
  note cp = child_path [OF 4(3,4) this]
  let ?s1 = "if is_dir n then prune fuel root (filepath_Join [dir, c]) s else s"
  have w: "(if is_dir n then prune (fuel + j) root (filepath_Join [dir, c]) s else s) = ?s1"
    using 4(1) [OF _ cp look 4(6)] 4(7) by simp
  have "prunes (\<lambda>_. True) old (lookup ?s1)"
    using evolvesD [OF evolves_prune(1) [where Q = "\<lambda>_. True", OF _ 4(6)]] 4(6) by simp
  from 4(2) [OF 4(3,4) _ this 4(7)] 4(5)
  have "prune_entries (fuel + j) root dir es ?s1 = prune_entries fuel root dir es ?s1" by simp
  with w show ?case by (simp only: prune_entries.simps)
qed simp

subsection \<open>The mirror, put together\<close>

lemma mirror:
  assumes "PropertySet_Validate ps = None" and "\<forall>k \<in> fst ` set (ps_Properties ps). canonical k"
    and "HasPrefix root ''/''" and "kpath root = Inr r"
    and "healthy s" and "\<forall>p. lookup s p \<noteq> None \<longrightarrow> names_ok p"
    and "propertiesApplyer root ps s = (None, s')"
  shows "(\<forall>k v. map_of (ps_Properties ps) k = Some v \<longrightarrow> file_content s' (filepath_Join [root, k]) = Some v) \<and>
    only_props r (fst ` set (ps_Properties ps)) (lookup s')"
proof -
  let ?props = "ps_Properties ps" and ?keys = "fst ` set (ps_Properties ps)"
  let ?ks = "sort (remdups (map fst ?props))"
  from assms(7) obtain s1 xs s2 s3 s4 where
    1: "os_MkdirAll root mode_0755 s = (None, s1)" and 2: "collectFiles root s1 = (Inr xs, s2)" and
    3: "remove_stale ((\<lambda>k. filepath_Join [root, k]) ` ?keys) xs s2 = (None, s3)" and
    4: "write_props root ?props ?ks s3 = (None, s4)" and s': "s' = pruneEmptyDirs root s4"
    by (auto simp: propertiesApplyer_def Let_def split: prod.splits option.splits sum.splits)
  have val: "\<forall>k \<in> ?keys. validate_key k = None"
    using assms(1) by (simp add: PropertySet_Validate_def validate_all_keys_None)
  have "evolves (\<lambda>m. \<forall>p. m p \<noteq> None \<longrightarrow> names_ok p) s (snd (os_MkdirAll root mode_0755 s))"
    by (rule evolves_MkdirAll) (use assms(4,6) kpath_names_ok [OF assms(4)] in auto)
  then have names: "\<forall>q. lookup s1 q \<noteq> None \<longrightarrow> names_ok q" using 1 by (simp add: evolves_def)
  have h1: "healthy s1" using MkdirAll_keeps_healthy [OF assms(5), of root mode_0755] 1 by simp
  have dir: "dir_at s1 r"
    using mkdir_all_ok [of "rev r" mode_0755 s s1] 1 assms(4) by (simp add: os_MkdirAll_def dir_at_def)
  have "only_props r ?keys (lookup s3)" by (rule stale_removed [OF assms(3,4) h1 dir names val 2 3])
  then have only: "only_props r ?keys (lookup s4)"
    using write_props_only [OF assms(3,4), of ?ks ?keys s3 ?props] val 4 by simp
  have pr: "prunes (\<lambda>_. True) (lookup s4) (lookup s')"
    unfolding s' by (rule evolvesD [OF evolves_pruneEmptyDirs]) simp_all
  have "only_props r ?keys (lookup s')" using only prunes_Some [OF pr] unfolding only_props_def by blast
  moreover have "file_content s' (filepath_Join [root, k]) = Some v" if v: "map_of ?props k = Some v" for k v
  proof -
    from v have k: "k \<in> ?keys" by (force dest: map_of_SomeD)
    have "\<exists>a. lookup s4 (r @ key_path k) = Some (Reg a (the (map_of ?props k)))"
      by (rule write_props_writes [OF assms(3,4) _ _ _ 4]) (use val assms(2) k in auto)
    then obtain a where "lookup s4 (r @ key_path k) = Some (Reg a v)" using v by auto
    with pr have "lookup s' (r @ key_path k) = Some (Reg a v)" unfolding prunes_def by (metis node.distinct(1) option.inject)
    moreover have "validate_key k = None" using k by (rule bspec [OF val])
    ultimately show ?thesis using key_file [OF assms(3,4), of k] by (simp add: file_content_def kpath_path_string)
  qed
  ultimately show ?thesis by blast
qed

section \<open>Properties\<close>

text \<open>C8: whatever fails and whenever the guest is stopped during an apply, every entry of the file
  system is as before the apply, a directory, gone, the complete value of a property at its path, or
  one of the temporary files: a reader of the tree never sees half a value.\<close>

theorem properties_never_torn:
  "evolves (untorn root (ps_Properties ps) (lookup s)) s (snd (propertiesApplyer root ps s))"
proof (rule evolves_propertiesApplyer)
  let ?I = "untorn root (ps_Properties ps) (lookup s)"
  have "?I (lookup s)" by (simp add: untorn_def)
  then show "evolves ?I s (snd (os_MkdirAll root mode_0755 s))"
    by (rule MkdirAll_dirs [where I = ?I]) (rule untorn_updates(2))
  fix t xs t'
  assume I: "?I (lookup t)"
  show "evolves ?I t' (snd (remove_stale ((\<lambda>k. filepath_Join [root, k]) ` fst ` set (ps_Properties ps)) xs t'))"
    if c: "collectFiles root t = (Inr xs, t')"
  proof (rule evolves_remove_stale [where I = ?I])
    have "?I (lookup (snd (collectFiles root t)))"
      by (rule evolvesD [OF evolves_collectFiles [where I = ?I, OF I]])
    with c show "?I (lookup t')" by simp
  qed (rule untorn_updates(1))
  show "evolves ?I t (snd (write_props root (ps_Properties ps) (sort (remdups (map fst (ps_Properties ps)))) t))"
    by (rule evolves_write_props [OF I]) simp
  show "evolves ?I t (pruneEmptyDirs root t)"
    by (rule evolves_mono [OF evolves_pruneEmptyDirs [where Q = "\<lambda>_. True"] untorn_prunes [OF I]]) simp_all
qed


text \<open>C6: when an apply on a healthy file system reports success, the tree mirrors the properties:
  every property is a file with its value, and every other file left below the root is called \<open>.tmp\<close>.
  (The keys are in the form \<open>filepath.Clean\<close> leaves them in; two spellings of one path would fight over it.)\<close>

theorem properties_mirrored:
  assumes "PropertySet_Validate ps = None" and "\<forall>k \<in> fst ` set (ps_Properties ps). canonical k"
    and "HasPrefix root ''/''" and "kpath root = Inr r"
    and "healthy s" and "\<forall>p. lookup s p \<noteq> None \<longrightarrow> names_ok p"
    and "propertiesApplyer root ps s = (None, s')"
  shows "(\<forall>k v. map_of (ps_Properties ps) k = Some v \<longrightarrow> file_content s' (filepath_Join [root, k]) = Some v) \<and>
    only_props r (fst ` set (ps_Properties ps)) (lookup s')"
  by (rule mirror [OF assms])

text \<open>C32: a directory where the file of a key should be (left by a key below it: \<open>a/b\<close> published, then
  \<open>a\<close>) is never removed before the rename it blocks, so the apply fails and leaves the directory: every
  later apply of the set fails in the same way, however often it is published again.\<close>

theorem properties_stuck_on_directory:
  assumes "k \<in> fst ` set (ps_Properties ps)" and "kpath (filepath_Join [root, k]) = Inr p"
    and "lookup s p = Some (Directory a)"
    and "HasPrefix root ''/''" "kpath root = Inr r" and "\<forall>q. lookup s q \<noteq> None \<longrightarrow> names_ok q"
  shows "fst (propertiesApplyer root ps s) \<noteq> None \<and>
    lookup (snd (propertiesApplyer root ps s)) p = Some (Directory a)"
proof -
  let ?props = "ps_Properties ps" and ?D = "\<lambda>m. m p = Some (Directory a)"
  let ?want = "(\<lambda>k. filepath_Join [root, k]) ` fst ` set ?props" and ?ks = "sort (remdups (map fst ?props))"
  let ?I = "\<lambda>m. ?D m \<and> (\<forall>q. m q \<noteq> None \<longrightarrow> names_ok q)"
  obtain r1 s1 where 1: "os_MkdirAll root mode_0755 s = (r1, s1)" by force
  have "evolves ?I s (snd (os_MkdirAll root mode_0755 s))"
    by (rule evolves_MkdirAll) (use assms(3,5,6) kpath_names_ok [OF assms(5)] in auto)
  with 1 have s1: "?I (lookup s1)" by (simp add: evolves_def)
  obtain r2 s2 where 2: "collectFiles root s1 = (r2, s2)" by force
  from evolves_collectFiles [where I = "\<lambda>m. m = lookup s1" and s = s1 and root = root] 2
  have s2: "lookup s2 = lookup s1" by (simp add: evolves_def)
  have s3: "?D (lookup (snd (remove_stale ?want xs s2)))" if "r2 = Inr xs" for xs
  proof (rule evolvesD [OF evolves_remove_stale [where I = ?D]])
    show "?D (lookup s2)" using s1 s2 by simp
    fix m x q
    assume "x \<in> set xs" and q: "kpath x = Inr q" and m: "?D m"
    with collectFiles_below [OF assms(4,5) conjunct2 [OF s1] 2 [unfolded that]] s1 have "q \<noteq> p" by fastforce
    with m show "?D (m(q := None))" by simp
  qed
  have "k \<in> set ?ks" using assms(1) by simp
  with write_props_dir [of _ p a root ?props ?ks k] assms(2)
  have wr: "?D (lookup (snd (write_props root ?props ?ks t)))" "fst (write_props root ?props ?ks t) \<noteq> None"
    if "?D (lookup t)" for t using that by blast+
  show ?thesis
  proof (cases "r1 = None \<and> (\<exists>xs. r2 = Inr xs)")
    case False
    with 1 2 s1 s2 show ?thesis by (cases r1; cases r2) (auto simp: propertiesApplyer_def Let_def)
  next
    case True
    then obtain xs where xs: "r1 = None" "r2 = Inr xs" by blast
    obtain r3 s3 where 3: "remove_stale ?want xs s2 = (r3, s3)" by force
    with s3 [OF xs(2)] have d3: "?D (lookup s3)" by simp
    obtain r4 s4 where 4: "write_props root ?props ?ks s3 = (r4, s4)" by force
    with wr [OF d3] have "?D (lookup s4)" "r4 \<noteq> None" by simp_all
    with 1 2 3 4 xs d3 show ?thesis
      by (cases r3; cases r4) (simp_all add: propertiesApplyer_def Let_def)
  qed
qed

text \<open>C34: the two recursive walks over the tree end: with the fuel they are given (two more than the
  longest path of the file system) they compute what they compute with any more of it.\<close>

theorem properties_walks_end:
  assumes "HasPrefix root ''/''" "kpath root = Inr r" and "lookup s r = Some n"
    and "\<forall>q. lookup s q \<noteq> None \<longrightarrow> names_ok q"
  shows "walk_dir (Suc (Suc (depth s)) + j) root n s = walk_dir (Suc (Suc (depth s))) root n s \<and>
    prune (Suc (Suc (depth s)) + j) root root s = pruneEmptyDirs root s"
proof -
  have D: "\<forall>q. lookup s q \<noteq> None \<longrightarrow> length q \<le> depth s" using depth_bound by blast
  have "walk_dir (Suc (Suc (depth s)) + j) root n s = walk_dir (Suc (Suc (depth s))) root n s"
    by (rule walk_fuel(1) [OF assms(1-4) D]) simp
  moreover have "prune (Suc (Suc (depth s)) + j) root root s = prune (Suc (Suc (depth s))) root root s"
    by (rule prune_fuel(1) [OF assms(4) D assms(1,2)]) (use assms(3) in simp_all)
  ultimately show ?thesis unfolding pruneEmptyDirs_def by blast
qed

lemma os_demo_names: "\<forall>q. lookup os_demo q \<noteq> None \<longrightarrow> names_ok q"
  by (auto simp: os_demo_def entry_name_def proper_def)

theorem properties_walks_end_witness:
  "walk_dir (Suc (Suc (depth os_demo)) + 5) ''/root'' (Directory root_attr) os_demo =
     walk_dir (Suc (Suc (depth os_demo))) ''/root'' (Directory root_attr) os_demo"
proof -
  have "kpath ''/root'' = Inr [''root'']" by code_simp
  from conjunct1 [OF properties_walks_end [OF _ this _ os_demo_names, of "Directory root_attr" 5]]
  show ?thesis by (simp add: HasPrefix_def os_demo_def)
qed

text \<open>An example: a guest with an old property \<open>a/b\<close> gets new ones.\<close>

definition props_new :: PropertySet where
  "props_new = \<lparr>ps_Properties = [(''x/y'', ''d''), (''name.tmp'', ''c''), (''name'', ''b'')]\<rparr>"

definition os_props :: os where
  "os_props = os_demo\<lparr>os_tree := os_tree os_demo @
     [([''root'', ''a''], Directory root_attr), ([''root'', ''a'', ''b''], Reg root_attr ''old'')]\<rparr>"

lemma os_props_healthy: "healthy os_props"
  unfolding healthy_def calm_def wf_map_def
  by (auto simp: os_props_def os_demo_def append_eq_Cons_conv)

lemma os_props_names: "\<forall>q. lookup os_props q \<noteq> None \<longrightarrow> names_ok q"
  by (auto simp: os_props_def os_demo_def entry_name_def proper_def)

lemma kpath_root: "HasPrefix ''/root'' ''/''" "kpath ''/root'' = Inr [''root'']"
  by code_simp+


theorem properties_mirrored_witness:
  "file_content (snd (propertiesApplyer ''/root'' props_new os_props)) (filepath_Join [''/root'', ''name'']) = Some ''b'' \<and>
     only_props [''root''] {''x/y'', ''name.tmp'', ''name''} (lookup (snd (propertiesApplyer ''/root'' props_new os_props)))"
proof -
  let ?r = "propertiesApplyer ''/root'' props_new os_props"
  have 1: "PropertySet_Validate props_new = None" by code_simp
  have 2: "\<forall>k \<in> fst ` set (ps_Properties props_new). canonical k" by code_simp
  have "fst ?r = None" by code_simp
  then have "?r = (None, snd ?r)" by (metis prod.collapse)
  from properties_mirrored [OF 1 2 kpath_root os_props_healthy os_props_names this]
  show ?thesis by (auto simp: props_new_def)
qed

theorem properties_stuck_on_directory_witness:
  "fst (propertiesApplyer ''/root'' \<lparr>ps_Properties = [(''a'', ''v'')]\<rparr> os_props) \<noteq> None"
proof -
  have 1: "''a'' \<in> fst ` set (ps_Properties \<lparr>ps_Properties = [(''a'', ''v'')]\<rparr>)" by simp
  have 2: "kpath (filepath_Join [''/root'', ''a'']) = Inr [''root'', ''a'']" by code_simp
  have 3: "lookup os_props [''root'', ''a''] = Some (Directory root_attr)" by (simp add: os_props_def os_demo_def)
  from properties_stuck_on_directory [OF 1 2 3 kpath_root os_props_names] show ?thesis by blast
qed

end
