(* ===== verification/Boot.thy ===== *)
theory Boot
  imports Properties Metrics
begin

text \<open>
  Package \<open>boot\<close>: first-boot provisioning from the properties \<^verbatim>\<open>weft.boot/*\<close>; its production hooks
  (\<^verbatim>\<open>cmd/weft-microvm-agent/boot.go\<close>); and the polling loop \<open>watchAndRunBoot\<close> of \<^verbatim>\<open>main.go\<close>.

  Third-party code is a parameter: the shell interpreter of \<open>mvdan.cc/sh\<close> (\<open>shell\<close>), the git library
  (\<open>git_lib\<close>) and the OCI client (\<open>oras_lib\<close>).  They act on the file system and return any error.  The
  world of a run is the file system, what was written to the log, and a ghost list of the hooks that
  were called.
\<close>

section \<open>Configuration\<close>

record Config =
  SourceKind :: string
  SourceURL :: string
  SourceRef :: string
  Script :: string

definition IsEmpty :: "Config \<Rightarrow> bool" where
  "IsEmpty c \<longleftrightarrow> SourceKind c = [] \<and> TrimSpace (Script c) = []"

definition readOptionalFile :: "string \<Rightarrow> os \<Rightarrow> (errno + string) \<times> os" where
  "readOptionalFile path s = (case os_ReadFile path s of
       (Inl e, s1) \<Rightarrow> (if e = ENOENT then Inr [] else Inl e, s1)
     | (Inr b, s1) \<Rightarrow> (Inr b, s1))"

text \<open>The loop over the four files; the first error ends it and no partial result is returned.\<close>

fun read_fields :: "string \<Rightarrow> (string \<times> (string \<Rightarrow> Config \<Rightarrow> Config)) list \<Rightarrow> Config \<Rightarrow> os \<Rightarrow> (errno + Config) \<times> os" where
  "read_fields root [] c s = (Inr c, s)"
| "read_fields root ((key, dst) # ps) c s = (case readOptionalFile (filepath_Join [root, key]) s of
       (Inl e, s1) \<Rightarrow> (Inl e, s1)
     | (Inr v, s1) \<Rightarrow> read_fields root ps (dst (TrimRight v [LF]) c) s1)"

definition boot_fields :: "(string \<times> (string \<Rightarrow> Config \<Rightarrow> Config)) list" where
  "boot_fields =
     [(''weft.boot/source.kind'', \<lambda>v c. c\<lparr>SourceKind := v\<rparr>), (''weft.boot/source.url'', \<lambda>v c. c\<lparr>SourceURL := v\<rparr>),
      (''weft.boot/source.ref'', \<lambda>v c. c\<lparr>SourceRef := v\<rparr>), (''weft.boot/script'', \<lambda>v c. c\<lparr>Script := v\<rparr>)]"

definition ReadFromPropertiesDir :: "string \<Rightarrow> os \<Rightarrow> (errno + Config) \<times> os" where
  "ReadFromPropertiesDir root =
     read_fields root boot_fields \<lparr>SourceKind = [], SourceURL = [], SourceRef = [], Script = []\<rparr>"

section \<open>The runner\<close>

datatype 'e boot_error = NoSentinelPath | MkdirWorkdir errno | NoCloner | GitClone 'e | NoPuller | OciPull 'e
  | UnknownKind string | ScriptParse 'e | ScriptNew 'e | ScriptFailed 'e | SentinelDir errno | SentinelWrite errno

datatype boot_event = Cloned string string string | Pulled string string string | Ran string string

record boot_world =
  bw_os :: os
  bw_out :: string
  bw_done :: "boot_event list"

type_synonym 'e fetch = "string \<Rightarrow> string \<Rightarrow> string \<Rightarrow> os \<Rightarrow> 'e err \<times> os"

record 'e Runner =
  WorkDir :: string
  SentinelPath :: string
  LogOut :: bool
  Cloner :: "'e fetch option"
  Puller :: "'e fetch option"

record ('f, 'e) shell =
  sh_Parse :: "string \<Rightarrow> 'e + 'f"
  sh_New :: "string \<Rightarrow> os \<Rightarrow> 'e err"
  sh_Run :: "string \<Rightarrow> 'f \<Rightarrow> os \<Rightarrow> 'e err \<times> string \<times> os"

text \<open>A \<open>LogOut\<close> that is nil discards what is written to it.\<close>

definition log_line :: "'e Runner \<Rightarrow> string \<Rightarrow> boot_world \<Rightarrow> boot_world" where
  "log_line r line w = (if LogOut r then w\<lparr>bw_out := bw_out w @ line @ [LF]\<rparr> else w)"

definition RunScript :: "('f, 'e) shell \<Rightarrow> string \<Rightarrow> string \<Rightarrow> bool \<Rightarrow> boot_world \<Rightarrow> 'e boot_error err \<times> boot_world" where
  "RunScript sh body cwd logOut w = (case sh_Parse sh body of
       Inl e \<Rightarrow> (Some (ScriptParse e), w)
     | Inr f \<Rightarrow> (case sh_New sh cwd (bw_os w) of
         Some e \<Rightarrow> (Some (ScriptNew e), w)
       | None \<Rightarrow> (case sh_Run sh cwd f (bw_os w) of (e, out, s) \<Rightarrow>
           (map_option ScriptFailed e,
            w\<lparr>bw_os := s, bw_out := (if logOut then bw_out w @ out else bw_out w), bw_done := bw_done w @ [Ran body cwd]\<rparr>))))"

definition touchSentinel :: "'e Runner \<Rightarrow> boot_world \<Rightarrow> 'e boot_error err \<times> boot_world" where
  "touchSentinel r w = (case os_MkdirAll (filepath_Dir (SentinelPath r)) mode_0755 (bw_os w) of
       (Some e, s1) \<Rightarrow> (Some (SentinelDir e), w\<lparr>bw_os := s1\<rparr>)
     | (None, s1) \<Rightarrow> (case os_WriteFile (SentinelPath r) (''ok'' @ [LF]) mode_0644 s1 of
         (e, s2) \<Rightarrow> (map_option SentinelWrite e, w\<lparr>bw_os := s2\<rparr>)))"

definition fetch_line :: "string \<Rightarrow> Config \<Rightarrow> string \<Rightarrow> string" where
  "fetch_line what c dst = ''weft-boot: '' @ what @ '' '' @ SourceURL c @ '' @ '' @ SourceRef c @ '' -> '' @ dst"

text \<open>The switch over \<open>SourceKind\<close>.\<close>

definition pull :: "'e Runner \<Rightarrow> Config \<Rightarrow> string \<Rightarrow> boot_world \<Rightarrow> 'e boot_error err \<times> boot_world" where
  "pull r c dst w =
     (if SourceKind c = [] \<or> SourceKind c = ''none'' then (None, w)
      else if SourceKind c = ''git'' then
        (case Cloner r of
           None \<Rightarrow> (Some NoCloner, w)
         | Some f \<Rightarrow>
             let w1 = log_line r (fetch_line ''git clone'' c dst) w in
             (case f (SourceURL c) (SourceRef c) dst (bw_os w1) of (e, s) \<Rightarrow>
                (map_option GitClone e,
                 w1\<lparr>bw_os := s, bw_done := bw_done w1 @ [Cloned (SourceURL c) (SourceRef c) dst]\<rparr>)))
      else if SourceKind c = ''oci'' then
        (case Puller r of
           None \<Rightarrow> (Some NoPuller, w)
         | Some f \<Rightarrow>
             let w1 = log_line r (fetch_line ''oci pull'' c dst) w in
             (case f (SourceURL c) (SourceRef c) dst (bw_os w1) of (e, s) \<Rightarrow>
                (map_option OciPull e,
                 w1\<lparr>bw_os := s, bw_done := bw_done w1 @ [Pulled (SourceURL c) (SourceRef c) dst]\<rparr>)))
      else (Some (UnknownKind (SourceKind c)), w))"

definition script_step :: "('f, 'e) shell \<Rightarrow> 'e Runner \<Rightarrow> Config \<Rightarrow> string \<Rightarrow> boot_world \<Rightarrow> 'e boot_error err \<times> boot_world" where
  "script_step sh r c dst w =
     (if TrimSpace (Script c) = [] then (None, w)
      else case os_Stat dst (bw_os w) of
        (Inr _, s1) \<Rightarrow> RunScript sh (Script c) dst (LogOut r) (w\<lparr>bw_os := s1\<rparr>)
      | (Inl _, s1) \<Rightarrow> RunScript sh (Script c) (WorkDir r) (LogOut r) (w\<lparr>bw_os := s1\<rparr>))"

definition provision :: "('f, 'e) shell \<Rightarrow> 'e Runner \<Rightarrow> Config \<Rightarrow> boot_world \<Rightarrow> 'e boot_error err \<times> boot_world" where
  "provision sh r c w = (case os_MkdirAll (WorkDir r) mode_0755 (bw_os w) of
       (Some e, s1) \<Rightarrow> (Some (MkdirWorkdir e), w\<lparr>bw_os := s1\<rparr>)
     | (None, s1) \<Rightarrow>
         let dst = filepath_Join [WorkDir r, ''payload''] in
         (case pull r c dst (w\<lparr>bw_os := s1\<rparr>) of
            (Some e, w2) \<Rightarrow> (Some e, w2)
          | (None, w2) \<Rightarrow> (case script_step sh r c dst w2 of
              (Some e, w3) \<Rightarrow> (Some e, w3)
            | (None, w3) \<Rightarrow> touchSentinel r w3)))"

definition Run :: "('f, 'e) shell \<Rightarrow> 'e Runner \<Rightarrow> Config \<Rightarrow> boot_world \<Rightarrow> 'e boot_error err \<times> boot_world" where
  "Run sh r c w =
     (if SentinelPath r = [] then (Some NoSentinelPath, w)
      else case os_Stat (SentinelPath r) (bw_os w) of
        (Inr _, s1) \<Rightarrow> (None, log_line r ''weft-boot: sentinel present, skipping'' (w\<lparr>bw_os := s1\<rparr>))
      | (Inl _, s1) \<Rightarrow>
          if IsEmpty c
          then touchSentinel r (log_line r ''weft-boot: no provisioning requested ; stamping sentinel'' (w\<lparr>bw_os := s1\<rparr>))
          else provision sh r c (w\<lparr>bw_os := s1\<rparr>))"

section \<open>The production hooks\<close>

record ('repo, 'h, 'e) git_lib =
  PlainClone :: "string \<Rightarrow> string \<Rightarrow> os \<Rightarrow> ('e + 'repo) \<times> os"
  ResolveRevision :: "'repo \<Rightarrow> string \<Rightarrow> os \<Rightarrow> 'e + 'h"
  Worktree :: "'repo \<Rightarrow> os \<Rightarrow> 'e err"
  Checkout :: "'repo \<Rightarrow> 'h \<Rightarrow> os \<Rightarrow> 'e err \<times> os"

datatype 'e fetch_error = CloneError string 'e | ResolveError string 'e | WorktreeError 'e | CheckoutError string 'e
  | MkdirError string errno | StoreError string 'e | RepoError string 'e | CopyError string string 'e

definition gitClone :: "('repo, 'h, 'e) git_lib \<Rightarrow> string \<Rightarrow> string \<Rightarrow> string \<Rightarrow> os \<Rightarrow> 'e fetch_error err \<times> os" where
  "gitClone g url ref dst s = (case PlainClone g dst url s of
       (Inl e, s1) \<Rightarrow> (Some (CloneError url e), s1)
     | (Inr repo, s1) \<Rightarrow>
         if ref = [] then (None, s1)
         else case ResolveRevision g repo ref s1 of
           Inl e \<Rightarrow> (Some (ResolveError ref e), s1)
         | Inr h \<Rightarrow> (case Worktree g repo s1 of
             Some e \<Rightarrow> (Some (WorktreeError e), s1)
           | None \<Rightarrow> (case Checkout g repo h s1 of (e, s2) \<Rightarrow> (map_option (CheckoutError ref) e, s2))))"

record ('store, 'repo, 'e) oras_lib =
  file_New :: "string \<Rightarrow> os \<Rightarrow> ('e + 'store) \<times> os"
  NewRepository :: "string \<Rightarrow> 'e + 'repo"
  oras_Copy :: "'repo \<Rightarrow> string \<Rightarrow> 'store \<Rightarrow> os \<Rightarrow> 'e err \<times> os"
  store_Close :: "'store \<Rightarrow> os \<Rightarrow> os"

definition oci_ref :: "string \<Rightarrow> string" where
  "oci_ref ref = (if ref = [] then ''latest'' else ref)"

definition oci_repository :: "string \<Rightarrow> string" where
  "oci_repository url = TrimPrefix (TrimPrefix (TrimPrefix url ''oci://'') ''https://'') ''http://''"

definition ociPull :: "('store, 'repo, 'e) oras_lib \<Rightarrow> string \<Rightarrow> string \<Rightarrow> string \<Rightarrow> os \<Rightarrow> 'e fetch_error err \<times> os" where
  "ociPull lib url ref dst s = (case os_MkdirAll dst mode_0755 s of
       (Some e, s1) \<Rightarrow> (Some (MkdirError dst e), s1)
     | (None, s1) \<Rightarrow> (case file_New lib dst s1 of
         (Inl e, s2) \<Rightarrow> (Some (StoreError dst e), s2)
       | (Inr store, s2) \<Rightarrow> (case NewRepository lib (oci_repository url) of
           Inl e \<Rightarrow> (Some (RepoError (oci_repository url) e), store_Close lib store s2)
         | Inr repo \<Rightarrow> (case oras_Copy lib repo (oci_ref ref) store s2 of
             (e, s3) \<Rightarrow> (map_option (CopyError (oci_repository url) (oci_ref ref)) e, store_Close lib store s3)))))"

definition bootRunner :: "('repo, 'h, 'e) git_lib \<Rightarrow> ('store, 'r, 'e) oras_lib \<Rightarrow> string \<Rightarrow> string \<Rightarrow> 'e fetch_error Runner" where
  "bootRunner g lib workDir sentinelPath =
     \<lparr>WorkDir = workDir, SentinelPath = sentinelPath, LogOut = True, Cloner = Some (gitClone g), Puller = Some (ociPull lib)\<rparr>"

section \<open>The watcher\<close>

text \<open>One round of the loop: whether the agent is shutting down at its head or during its wait, the time
  the deadline is compared with, how long the run took, and what the rest of the guest does before the round.\<close>

record poll =
  p_shutdown :: bool
  p_interrupt :: bool
  p_now :: int
  p_took :: int
  p_world :: "boot_world \<Rightarrow> boot_world"

datatype 'e watch_end = OnShutdown | AlreadyProvisioned | Provisioned "'e boot_error err" | GaveUp "'e boot_error err"

abbreviation second :: int where
  "second \<equiv> 1000000000"

definition pollEvery :: int where
  "pollEvery = 2 * second"

definition maxWait :: int where
  "maxWait = 5 * 60 * second"

text \<open>What a round does: end, or wait and go round again.\<close>

definition watch_round :: "('f, 'e) shell \<Rightarrow> 'e Runner \<Rightarrow> string \<Rightarrow> int \<Rightarrow> poll \<Rightarrow> Recorder option \<Rightarrow> boot_world \<Rightarrow>
    'e watch_end option \<times> Recorder option \<times> boot_world" where
  "watch_round sh r dir deadline p rec w0 =
     (let w = p_world p w0; wait = (if p_interrupt p then Some OnShutdown else None) in
      if p_shutdown p then (Some OnShutdown, rec, w)
      else case os_Stat (SentinelPath r) (bw_os w) of
        (Inr _, s1) \<Rightarrow> (Some AlreadyProvisioned, rec, w\<lparr>bw_os := s1\<rparr>)
      | (Inl _, s1) \<Rightarrow> (case ReadFromPropertiesDir dir s1 of
          (Inl _, s2) \<Rightarrow> (wait, rec, w\<lparr>bw_os := s2\<rparr>)
        | (Inr c, s2) \<Rightarrow>
            if \<not> IsEmpty c then
              (case Run sh r c (w\<lparr>bw_os := s2\<rparr>) of (e, w3) \<Rightarrow>
                 (Some (Provisioned e), RecordApply rec ''boot'' e (p_took p), w3))
            else if deadline < p_now p then
              (case Run sh r \<lparr>SourceKind = [], SourceURL = [], SourceRef = [], Script = []\<rparr> (w\<lparr>bw_os := s2\<rparr>) of (e, w3) \<Rightarrow>
                 (Some (GaveUp e), RecordApply rec ''boot'' e (p_took p), w3))
            else (wait, rec, w\<lparr>bw_os := s2\<rparr>)))"

text \<open>The loop.  The fuel bounds the rounds: the result \<^const>\<open>None\<close> says the watcher is still polling.\<close>

fun watch_loop :: "nat \<Rightarrow> ('f, 'e) shell \<Rightarrow> 'e Runner \<Rightarrow> string \<Rightarrow> int \<Rightarrow> (nat \<Rightarrow> poll) \<Rightarrow> nat \<Rightarrow> Recorder option \<Rightarrow> boot_world \<Rightarrow>
    ('e watch_end \<times> Recorder option \<times> boot_world) option" where
  "watch_loop 0 sh r dir deadline env i rec w = None"
| "watch_loop (Suc fuel) sh r dir deadline env i rec w =
     (case watch_round sh r dir deadline (env i) rec w of
        (Some e, rec', w') \<Rightarrow> Some (e, rec', w')
      | (None, rec', w') \<Rightarrow> watch_loop fuel sh r dir deadline env (Suc i) rec' w')"

definition watchAndRunBoot :: "nat \<Rightarrow> ('f, 'e) shell \<Rightarrow> 'e Runner \<Rightarrow> string \<Rightarrow> int \<Rightarrow> (nat \<Rightarrow> poll) \<Rightarrow> Recorder option \<Rightarrow> boot_world \<Rightarrow>
    ('e watch_end \<times> Recorder option \<times> boot_world) option" where
  "watchAndRunBoot fuel sh r dir started env rec w = watch_loop fuel sh r dir (started + maxWait) env 0 rec w"

section \<open>Lemmas\<close>

lemma log_line_simps [simp]: "bw_os (log_line r l w) = bw_os w" "bw_done (log_line r l w) = bw_done w"
  by (simp_all add: log_line_def)

lemma touchSentinel_done [simp]: "bw_done (snd (touchSentinel r w)) = bw_done w"
  by (simp add: touchSentinel_def split: prod.splits option.splits)

lemma touchSentinel_ok:
  assumes "touchSentinel r w = (None, w1)" and "kpath (SentinelPath r) = Inr sp"
  shows "\<exists>a. lookup (bw_os w1) sp = Some (Reg a (''ok'' @ [LF]))"
proof -
  from assms(1) obtain s1 s2 where "os_WriteFile (SentinelPath r) (''ok'' @ [LF]) mode_0644 s1 = (None, s2)"
    and "bw_os w1 = s2"
    by (auto simp: touchSentinel_def split: prod.splits option.splits)
  with WriteFile_ok(1) [OF _ assms(2)] show ?thesis by fastforce
qed

lemma Stat_tree: "os_Stat name s = (x, s1) \<Longrightarrow> os_tree s1 = os_tree s"
  by (auto simp: os_Stat_def split: option.splits sum.splits)

lemma Stat_found:
  "os_Stat name s = (Inr n, s1) \<Longrightarrow> kpath name = Inr p \<Longrightarrow> lookup s p = Some n"
  by (auto simp: os_Stat_def dest!: resolve_Inr split: option.splits sum.splits)

lemma Stat_present:
  "lookup s p = Some n \<Longrightarrow> kpath name = Inr p \<Longrightarrow> wf_map (lookup s) \<Longrightarrow> fault_of s = None \<Longrightarrow> os_Stat name s = (Inr n, tick s)"
  by (simp add: os_Stat_def wf_resolve)

text \<open>What a run that does everything calls, in order.\<close>

definition plan :: "Config \<Rightarrow> string \<Rightarrow> string \<Rightarrow> boot_event list" where
  "plan c dst cwd =
     (if SourceKind c = ''git'' then [Cloned (SourceURL c) (SourceRef c) dst]
      else if SourceKind c = ''oci'' then [Pulled (SourceURL c) (SourceRef c) dst] else []) @
     (if TrimSpace (Script c) = [] then [] else [Ran (Script c) cwd])"

lemma pull_ok: "pull r c dst w = (None, w1) \<Longrightarrow> bw_done w1 = bw_done w @
     (if SourceKind c = ''git'' then [Cloned (SourceURL c) (SourceRef c) dst]
      else if SourceKind c = ''oci'' then [Pulled (SourceURL c) (SourceRef c) dst] else [])"
  by (auto simp: pull_def Let_def split: if_splits option.splits prod.splits)

lemma script_ok: "script_step sh r c dst w = (None, w1) \<Longrightarrow> \<exists>cwd \<in> {dst, WorkDir r}.
     bw_done w1 = bw_done w @ (if TrimSpace (Script c) = [] then [] else [Ran (Script c) cwd])"
  by (auto simp: script_step_def RunScript_def split: if_splits sum.splits option.splits prod.splits)

lemma provision_ok:
  assumes "provision sh r c w = (None, w1)"
  shows "\<exists>w3. touchSentinel r w3 = (None, w1) \<and> (\<exists>cwd \<in> {filepath_Join [WorkDir r, ''payload''], WorkDir r}.
    bw_done w3 = bw_done w @ plan c (filepath_Join [WorkDir r, ''payload'']) cwd)"
proof -
  let ?dst = "filepath_Join [WorkDir r, ''payload'']"
  from assms obtain s1 w2 w3 where p: "pull r c ?dst (w\<lparr>bw_os := s1\<rparr>) = (None, w2)"
    and s: "script_step sh r c ?dst w2 = (None, w3)" and t: "touchSentinel r w3 = (None, w1)"
    by (auto simp: provision_def Let_def split: prod.splits option.splits)
  from pull_ok [OF p] script_ok [OF s] t show ?thesis by (auto simp: plan_def)
qed

subsection \<open>The sentinel of a failed run\<close>

text \<open>The hooks do not make the sentinel.\<close>

definition hooks_spare :: "path \<Rightarrow> ('f, 'e) shell \<Rightarrow> 'e Runner \<Rightarrow> bool" where
  "hooks_spare sp sh r \<longleftrightarrow>
     (\<forall>f. Cloner r = Some f \<or> Puller r = Some f \<longrightarrow>
        (\<forall>u ref d s. lookup s sp = None \<longrightarrow> lookup (snd (f u ref d s)) sp = None)) \<and>
     (\<forall>d f s. lookup s sp = None \<longrightarrow> lookup (snd (snd (sh_Run sh d f s))) sp = None)"

lemma pull_spares:
  "hooks_spare sp sh r \<Longrightarrow> lookup (bw_os w) sp = None \<Longrightarrow> lookup (bw_os (snd (pull r c dst w))) sp = None"
  unfolding hooks_spare_def pull_def Let_def by (auto split: option.splits prod.splits) (metis snd_conv)+

lemma RunScript_spares:
  "hooks_spare sp sh r \<Longrightarrow> lookup (bw_os w) sp = None \<Longrightarrow> lookup (bw_os (snd (RunScript sh b cwd l w))) sp = None"
  unfolding hooks_spare_def RunScript_def by (auto split: option.splits prod.splits sum.splits) (metis snd_conv)+

lemma script_spares:
  assumes "hooks_spare sp sh r" and "lookup (bw_os w) sp = None"
  shows "lookup (bw_os (snd (script_step sh r c dst w))) sp = None"
proof -
  obtain x s1 where st: "os_Stat dst (bw_os w) = (x, s1)" by force
  have "lookup (bw_os (w\<lparr>bw_os := s1\<rparr>)) sp = None" using assms(2) Stat_tree [OF st] by simp
  from RunScript_spares [OF assms(1) this] assms(2) st show ?thesis by (cases x) (auto simp: script_step_def)
qed

lemma touchSentinel_spares:
  assumes "abs_file (SentinelPath r)" and "lookup (bw_os w) (target_file (SentinelPath r)) = None"
    and "fst (touchSentinel r w) = Some e" and "\<forall>x. e \<noteq> SentinelWrite x"
  shows "lookup (bw_os (snd (touchSentinel r w))) (target_file (SentinelPath r)) = None"
proof -
  let ?sp = "target_file (SentinelPath r)"
  obtain r1 s1 where mk: "os_MkdirAll (filepath_Dir (SentinelPath r)) mode_0755 (bw_os w) = (r1, s1)" by force
  have "evolves (\<lambda>m. m ?sp = None) (bw_os w) s1"
    using keep_MkdirAll [OF file_paths(3) [OF assms(1)] _ assms(2), of mode_0755] mk by (simp add: target_file_def)
  then have "lookup s1 ?sp = None" by (simp add: evolves_def)
  with mk assms(3,4) show ?thesis
    by (cases r1) (auto simp: touchSentinel_def split: prod.splits)
qed

lemma provision_spares:
  assumes "hooks_spare (target_file (SentinelPath r)) sh r" and "abs_file (SentinelPath r)"
    and "\<forall>d t. kpath (WorkDir r) = Inr d \<longrightarrow> d \<noteq> target_file (SentinelPath r) @ t"
    and "lookup (bw_os w) (target_file (SentinelPath r)) = None"
    and "fst (provision sh r c w) = Some e" and "\<forall>x. e \<noteq> SentinelWrite x"
  shows "lookup (bw_os (snd (provision sh r c w))) (target_file (SentinelPath r)) = None"
proof -
  let ?sp = "target_file (SentinelPath r)" and ?dst = "filepath_Join [WorkDir r, ''payload'']"
  obtain r1 s1 where 1: "os_MkdirAll (WorkDir r) mode_0755 (bw_os w) = (r1, s1)" by force
  have "evolves (\<lambda>m. m ?sp = None) (bw_os w) (snd (os_MkdirAll (WorkDir r) mode_0755 (bw_os w)))"
    by (rule evolves_MkdirAll) (use assms(3,4) in auto)
  with 1 have s1: "lookup (bw_os (w\<lparr>bw_os := s1\<rparr>)) ?sp = None" by (simp add: evolves_def)
  obtain r2 w2 where 2: "pull r c ?dst (w\<lparr>bw_os := s1\<rparr>) = (r2, w2)" by force
  from pull_spares [OF assms(1) s1, of c ?dst] 2 have w2: "lookup (bw_os w2) ?sp = None" by simp
  obtain r3 w3 where 3: "script_step sh r c ?dst w2 = (r3, w3)" by force
  from script_spares [OF assms(1) w2, of c ?dst] 3 have w3: "lookup (bw_os w3) ?sp = None" by simp
  from 1 2 3 s1 w2 w3 touchSentinel_spares [OF assms(2) w3 _ assms(6)] assms(5) show ?thesis
    by (cases r1; cases r2; cases r3) (simp_all add: provision_def Let_def)
qed

subsection \<open>Rounds of the watcher\<close>

lemma watch_round_rec:
  "fst (watch_round sh r dir dl p rec w) = fst (watch_round sh r dir dl p None w)"
  "snd (snd (watch_round sh r dir dl p rec w)) = snd (snd (watch_round sh r dir dl p None w))"
  by (simp_all add: watch_round_def Let_def split: sum.splits prod.splits)

text \<open>The world before the \<open>n\<close>-th round from round \<open>i\<close>, and whether a round cannot read the properties.\<close>

fun world_after :: "nat \<Rightarrow> ('f, 'e) shell \<Rightarrow> 'e Runner \<Rightarrow> string \<Rightarrow> int \<Rightarrow> (nat \<Rightarrow> poll) \<Rightarrow> nat \<Rightarrow> boot_world \<Rightarrow> boot_world" where
  "world_after 0 sh r dir dl env i w = w"
| "world_after (Suc n) sh r dir dl env i w =
     world_after n sh r dir dl env (Suc i) (snd (snd (watch_round sh r dir dl (env i) None w)))"

definition unreadable :: "'e Runner \<Rightarrow> string \<Rightarrow> poll \<Rightarrow> boot_world \<Rightarrow> bool" where
  "unreadable r dir p w \<longleftrightarrow>
     (case fst (ReadFromPropertiesDir dir (snd (os_Stat (SentinelPath r) (bw_os (p_world p w))))) of Inl _ \<Rightarrow> True | Inr _ \<Rightarrow> False)"

lemma watch_loop_None:
  "watch_loop fuel sh r dir dl env i rec w = None \<Longrightarrow> j < fuel \<Longrightarrow>
     fst (watch_round sh r dir dl (env (i + j)) None (world_after j sh r dir dl env i w)) = None"
proof (induction fuel arbitrary: i j rec w)
  case (Suc fuel)
  obtain x rec' w' where wr: "watch_round sh r dir dl (env i) rec w = (x, rec', w')" by (metis prod_cases3)
  with Suc.prems(1) have x: "x = None" and rest: "watch_loop fuel sh r dir dl env (Suc i) rec' w' = None" by (cases x; simp)+
  have w': "w' = snd (snd (watch_round sh r dir dl (env i) None w))" using wr watch_round_rec(2) by (metis snd_conv)
  show ?case
  proof (cases j)
    case 0
    with wr x watch_round_rec(1) show ?thesis by (metis add.right_neutral fst_conv world_after.simps(1))
  next
    case (Suc k)
    with Suc.IH [OF rest, of k] Suc.prems(2) w' show ?thesis by simp
  qed
qed simp

lemma late_round_ends:
  assumes "dl < p_now p" and "\<not> unreadable r dir p w"
  shows "fst (watch_round sh r dir dl p None w) \<noteq> None"
  using assms by (auto simp: watch_round_def unreadable_def Let_def split: sum.splits prod.splits)

subsection \<open>Reading the property tree\<close>

lemma readOptionalFile_tree: "readOptionalFile p s = (x, s1) \<Longrightarrow> os_tree s1 = os_tree s \<and> faults s1 = faults s"
  by (auto simp: readOptionalFile_def os_ReadFile_def split: option.splits sum.splits node.splits if_splits)

lemma healthy_tree: "os_tree s1 = os_tree s \<and> faults s1 = faults s \<Longrightarrow> healthy s1 = healthy s"
  by (simp add: healthy_def calm_def)

lemma readOptionalFile_healthy:
  assumes "healthy s" and "kpath name = Inr p" and "readOptionalFile name s = (Inr v, s1)"
  shows "(\<exists>a. lookup s p = Some (Reg a v)) \<or> (lookup s p = None \<and> v = [])"
proof (cases "lookup s p")
  case None
  with assms show ?thesis
    by (auto simp: readOptionalFile_def os_ReadFile_def healthy_def dest!: resolve_Inr
        split: sum.splits node.splits if_splits option.splits)
next
  case (Some n)
  with assms wf_resolve [OF _ assms(2) Some] show ?thesis
    by (auto simp: readOptionalFile_def os_ReadFile_def healthy_def split: node.splits if_splits)
qed

lemma read_fields_tree: "read_fields root ps c s = (x, s1) \<Longrightarrow> os_tree s1 = os_tree s \<and> faults s1 = faults s"
proof (induction ps arbitrary: c s)
  case (Cons q ps)
  obtain key dst where q: "q = (key, dst)" by force
  obtain y s2 where y: "readOptionalFile (filepath_Join [root, key]) s = (y, s2)" by force
  with Cons q readOptionalFile_tree [OF y] show ?case by (cases y) auto
qed simp

text \<open>A directory in the place of a file makes every read fail.\<close>

lemma read_fields_directory:
  assumes "healthy s" and "lookup s p = Some n" "is_dir n" and "kpath (filepath_Join [root, key]) = Inr p"
    and "(key, dst) \<in> set ps"
  shows "\<exists>e s1. read_fields root ps c s = (Inl e, s1)"
  using assms
proof (induction ps arbitrary: c s)
  case (Cons q ps)
  obtain key' dst' where q: "q = (key', dst')" by force
  obtain y s2 where y: "readOptionalFile (filepath_Join [root, key']) s = (y, s2)" by force
  note t = readOptionalFile_tree [OF y]
  show ?case
  proof (cases y)
    case (Inr v)
    have "key' \<noteq> key"
      using readOptionalFile_healthy [OF Cons.prems(1) _ y [unfolded Inr]] Cons.prems(2-4) by auto
    with q Cons.prems(5) have "(key, dst) \<in> set ps" by auto
    with Cons.IH [of s2] Cons.prems(1-4) t healthy_tree [OF t] have "\<exists>e s1. read_fields root ps c' s2 = (Inl e, s1)" for c'
      by simp
    with q y Inr show ?thesis by simp
  qed (use q y in simp)
qed simp

text \<open>The state in which the watcher is stuck: no sentinel, and a directory where the script should be.\<close>

definition script_blocked :: "'e Runner \<Rightarrow> string \<Rightarrow> boot_world \<Rightarrow> bool" where
  "script_blocked r dir w \<longleftrightarrow> healthy (bw_os w) \<and>
     (\<exists>p n. kpath (filepath_Join [dir, ''weft.boot/script'']) = Inr p \<and> lookup (bw_os w) p = Some n \<and> is_dir n) \<and>
     (\<exists>sp. kpath (SentinelPath r) = Inr sp \<and> lookup (bw_os w) sp = None)"

lemma blocked_round:
  assumes b: "script_blocked r dir (p_world p w)" and "\<not> p_shutdown p" "\<not> p_interrupt p"
  shows "\<exists>w'. watch_round sh r dir dl p rec w = (None, rec, w') \<and> script_blocked r dir w'"
proof -
  let ?w = "p_world p w"
  from b obtain q n sp where h: "healthy (bw_os ?w)" and q: "kpath (filepath_Join [dir, ''weft.boot/script'']) = Inr q"
    "lookup (bw_os ?w) q = Some n" "is_dir n" and sp: "kpath (SentinelPath r) = Inr sp" "lookup (bw_os ?w) sp = None"
    by (auto simp: script_blocked_def)
  obtain x s1 where st: "os_Stat (SentinelPath r) (bw_os ?w) = (x, s1)" by force
  then obtain e where x: "x = Inl e" using Stat_found [OF _ sp(1)] sp(2) by (cases x) auto
  have t1: "os_tree s1 = os_tree (bw_os ?w) \<and> faults s1 = faults (bw_os ?w)"
    using st by (auto simp: os_Stat_def split: option.splits sum.splits)
  have "healthy s1" "lookup s1 q = Some n" using h q(2) t1 healthy_tree [OF t1] by simp_all
  note rf = read_fields_directory [OF this q(3,1)]
  have "(''weft.boot/script'', \<lambda>v c. c\<lparr>Script := v\<rparr>) \<in> set boot_fields" by (simp add: boot_fields_def)
  from rf [OF this] obtain e' s2 where rd: "ReadFromPropertiesDir dir s1 = (Inl e', s2)"
    unfolding ReadFromPropertiesDir_def by metis
  have t2: "os_tree s2 = os_tree s1 \<and> faults s2 = faults s1"
    using read_fields_tree rd by (metis ReadFromPropertiesDir_def)
  with t1 h healthy_tree have "healthy s2" by metis
  with t1 t2 q sp have "script_blocked r dir (?w\<lparr>bw_os := s2\<rparr>)" by (simp add: script_blocked_def)
  with st x rd assms(2,3) show ?thesis by (simp add: watch_round_def Let_def)
qed

text \<open>What the boot package reads from a tree that mirrors a property set.\<close>

lemma mirrored_field:
  assumes mir: "\<forall>k v. map_of props k = Some v \<longrightarrow> file_content s (filepath_Join [root, k]) = Some v"
    "only_props r (fst ` set props) (lookup s)"
    and "HasPrefix root ''/''" "kpath root = Inr r" and canon: "\<forall>k \<in> fst ` set props. canonical k"
    and key: "validate_key key = None" "canonical key" "filepath_Ext (path_string (r @ key_path key)) \<noteq> ''.tmp''"
    and "healthy s" and "readOptionalFile (filepath_Join [root, key]) s = (Inr v, s1)"
  shows "v = (case map_of props key of None \<Rightarrow> [] | Some v \<Rightarrow> v)"
proof -
  have k: "kpath (filepath_Join [root, key]) = Inr (r @ key_path key)"
    using key_file [OF assms(3,4) key(1)] by (simp add: kpath_path_string)
  note v = readOptionalFile_healthy [OF assms(9) k assms(10)]
  show ?thesis
  proof (cases "map_of props key")
    case None
    have "lookup s (r @ key_path key) \<noteq> Some (Reg a v)" for a
    proof
      assume "lookup s (r @ key_path key) = Some (Reg a v)"
      with mir(2) key(3) obtain k' where k': "k' \<in> fst ` set props" "key_path key = key_path k'"
        unfolding only_props_def by metis
      with canon key(2) have "key = k'" by (metis canonical_def)
      with None k' show False by (simp add: map_of_eq_None_iff)
    qed
    with v None show ?thesis by auto
  next
    case (Some u)
    with mir(1) k have "file_content s (filepath_Join [root, key]) = Some u" by blast
    with v k Some show ?thesis by (auto simp: file_content_def)
  qed
qed

section \<open>Properties\<close>

text \<open>C14: a run that reports success leaves the sentinel, and as long as the sentinel can be seen no
  later run, whatever its configuration and hooks, changes a file or calls a hook again.\<close>

theorem boot_runs_once:
  assumes "Run sh r c w = (None, w1)" and "kpath (SentinelPath r) = Inr sp"
    and "wf_map (lookup (bw_os w1))" and "fault_of (bw_os w1) = None" and "SentinelPath r' = SentinelPath r"
  shows "\<exists>w2. Run sh' r' c' w1 = (None, w2) \<and> bw_done w2 = bw_done w1 \<and> os_tree (bw_os w2) = os_tree (bw_os w1)"
proof -
  have ne: "SentinelPath r \<noteq> []" using assms(2) by (auto simp: kpath_def)
  obtain x s1 where st: "os_Stat (SentinelPath r) (bw_os w) = (x, s1)" by force
  have "\<exists>n. lookup (bw_os w1) sp = Some n"
  proof (cases x)
    case (Inr n)
    with assms(1) ne st have "bw_os w1 = s1" by (auto simp: Run_def)
    with Stat_found [OF st [unfolded Inr] assms(2)] Stat_tree [OF st] show ?thesis by simp
  next
    case (Inl e)
    then have "\<exists>w3. touchSentinel r w3 = (None, w1)"
      using assms(1) ne st provision_ok [of sh r c "w\<lparr>bw_os := s1\<rparr>" w1] by (auto simp: Run_def split: if_splits)
    with touchSentinel_ok [OF _ assms(2)] show ?thesis by blast
  qed
  then obtain n where "lookup (bw_os w1) sp = Some n" by blast
  from Stat_present [OF this assms(2-4)] ne assms(5) show ?thesis by (simp add: Run_def)
qed

text \<open>A run that finds no sentinel and reports success has written the sentinel, and has called
  exactly what the configuration asks for: the fetch of its kind, then the script.\<close>

theorem boot_does_what_it_is_told:
  assumes "Run sh r c w = (None, w1)" and "fst (os_Stat (SentinelPath r) (bw_os w)) = Inl e"
    and "kpath (SentinelPath r) = Inr sp"
  shows "file_content (bw_os w1) (SentinelPath r) = Some (''ok'' @ [LF]) \<and>
    (\<exists>cwd \<in> {filepath_Join [WorkDir r, ''payload''], WorkDir r}.
       bw_done w1 = bw_done w @ plan c (filepath_Join [WorkDir r, ''payload'']) cwd)"
proof -
  have ne: "SentinelPath r \<noteq> []" using assms(3) by (auto simp: kpath_def)
  obtain s1 where st: "os_Stat (SentinelPath r) (bw_os w) = (Inl e, s1)"
    using assms(2) by (metis prod.collapse)
  have "\<exists>w3. touchSentinel r w3 = (None, w1) \<and> (\<exists>cwd \<in> {filepath_Join [WorkDir r, ''payload''], WorkDir r}.
      bw_done w3 = bw_done w @ plan c (filepath_Join [WorkDir r, ''payload'']) cwd)"
  proof (cases "IsEmpty c")
    case True
    then have "plan c d d' = []" for d d' by (simp add: plan_def IsEmpty_def)
    with True assms(1) ne st show ?thesis by (auto simp: Run_def)
  next
    case False
    with assms(1) ne st provision_ok [of sh r c "w\<lparr>bw_os := s1\<rparr>" w1] show ?thesis by (simp add: Run_def)
  qed
  then obtain w3 cwd where t: "touchSentinel r w3 = (None, w1)" and "cwd \<in> {filepath_Join [WorkDir r, ''payload''], WorkDir r}"
    and "bw_done w3 = bw_done w @ plan c (filepath_Join [WorkDir r, ''payload'']) cwd" by blast
  moreover from t have "bw_done w1 = bw_done w3" using touchSentinel_done [of r w3] by simp
  moreover from touchSentinel_ok [OF t assms(3)] have "file_content (bw_os w1) (SentinelPath r) = Some (''ok'' @ [LF])"
    using assms(3) by (auto simp: file_content_def)
  ultimately show ?thesis by auto
qed

text \<open>A failed run leaves no sentinel, so the next boot tries again, if the hooks do not make it
  themselves and the failure is not that of the write of the sentinel.\<close>

theorem boot_failure_leaves_no_sentinel:
  assumes "Run sh r c w = (Some e, w1)" and "\<forall>x. e \<noteq> SentinelWrite x"
    and "hooks_spare (target_file (SentinelPath r)) sh r" and "abs_file (SentinelPath r)"
    and "\<forall>d t. kpath (WorkDir r) = Inr d \<longrightarrow> d \<noteq> target_file (SentinelPath r) @ t"
    and "lookup (bw_os w) (target_file (SentinelPath r)) = None"
  shows "lookup (bw_os w1) (target_file (SentinelPath r)) = None"
proof -
  let ?sp = "target_file (SentinelPath r)"
  obtain x s1 where st: "os_Stat (SentinelPath r) (bw_os w) = (x, s1)" by force
  with assms(6) Stat_tree [OF st] have s1: "lookup s1 ?sp = None" by simp
  note p = provision_spares [OF assms(3-5), where w = "w\<lparr>bw_os := s1\<rparr>" and c = c and e = e]
  have t: "lookup (bw_os (snd (touchSentinel r w'))) ?sp = None"
    if "bw_os w' = s1" "fst (touchSentinel r w') = Some e" for w'
    by (rule touchSentinel_spares [OF assms(4) _ that(2) assms(2)]) (use that(1) s1 in simp)
  show ?thesis
  proof (cases x)
    case (Inr n)
    with assms(1) st s1 assms(6) show ?thesis by (auto simp: Run_def split: if_splits)
  next
    case (Inl y)
    let ?w = "log_line r ''weft-boot: no provisioning requested ; stamping sentinel'' (w\<lparr>bw_os := s1\<rparr>)"
    consider "w1 = w" | "touchSentinel r ?w = (Some e, w1)" | "provision sh r c (w\<lparr>bw_os := s1\<rparr>) = (Some e, w1)"
      using assms(1) st Inl by (auto simp: Run_def split: if_splits)
    then show ?thesis
    proof cases
      case 2
      with t [of ?w] show ?thesis by simp
    next
      case 3
      with p s1 assms(2) show ?thesis by simp
    qed (use assms(6) in simp)
  qed
qed

text \<open>C39: the watcher does not poll for ever: with two seconds between rounds, it has ended by any round
  after the 150th (five minutes) that can read the properties.\<close>

theorem watcher_ends:
  assumes "\<forall>i. started + int i * pollEvery \<le> p_now (env i)" and "150 < j" and "j < fuel"
    and "\<not> unreadable r dir (env j) (world_after j sh r dir (started + maxWait) env 0 w)"
  shows "\<exists>out. watchAndRunBoot fuel sh r dir started env rec w = Some out"
proof (rule ccontr)
  assume "\<nexists>out. watchAndRunBoot fuel sh r dir started env rec w = Some out"
  then have "watch_loop fuel sh r dir (started + maxWait) env 0 rec w = None"
    by (metis not_None_eq watchAndRunBoot_def)
  from watch_loop_None [OF this assms(3)]
  have "fst (watch_round sh r dir (started + maxWait) (env j) None (world_after j sh r dir (started + maxWait) env 0 w)) = None"
    by simp
  moreover have "started + maxWait < p_now (env j)"
    using spec [OF assms(1), of j] assms(2) by (simp add: maxWait_def pollEvery_def)
  ultimately show False using late_round_ends [OF _ assms(4)] by blast
qed

text \<open>C40: a directory where \<open>weft.boot/script\<close> should be (a key below it was published) makes every read
  of the configuration fail, and the watcher then polls for ever: a failed read goes round again before
  the deadline is looked at.\<close>

theorem watcher_never_ends:
  assumes "script_blocked r dir w" and "\<forall>i. \<not> p_shutdown (env i) \<and> \<not> p_interrupt (env i)"
    and "\<forall>i w. script_blocked r dir w \<longrightarrow> script_blocked r dir (p_world (env i) w)"
  shows "watchAndRunBoot fuel sh r dir started env rec w = None"
proof -
  have "watch_loop fuel sh r dir dl env i rec w = None" if "script_blocked r dir w" for dl i w
    using that
  proof (induction fuel arbitrary: i w)
    case (Suc fuel)
    have "script_blocked r dir (p_world (env i) w)" using assms(3) Suc.prems by blast
    from blocked_round [OF this, of sh dl rec] assms(2) Suc.IH show ?case by auto
  qed simp
  with assms(1) show ?thesis by (simp add: watchAndRunBoot_def)
qed

text \<open>C15: what the host publishes is what the boot runner reads: after a successful apply of a property
  set on a healthy file system, a configuration read from the tree holds exactly the published
  \<open>weft.boot/*\<close> values, without their trailing newlines, and nothing for those not published.\<close>

theorem boot_reads_published:
  assumes "PropertySet_Validate ps = None" and "\<forall>k \<in> fst ` set (ps_Properties ps). canonical k"
    and "HasPrefix root ''/''" and "kpath root = Inr r"
    and "healthy s" and "\<forall>p. lookup s p \<noteq> None \<longrightarrow> names_ok p"
    and "propertiesApplyer root ps s = (None, s')" and "healthy s'"
    and "ReadFromPropertiesDir root s' = (Inr c, s'')"
  shows "let value = (\<lambda>k. TrimRight (case map_of (ps_Properties ps) k of None \<Rightarrow> [] | Some v \<Rightarrow> v) [LF]) in
    SourceKind c = value ''weft.boot/source.kind'' \<and> SourceURL c = value ''weft.boot/source.url'' \<and>
    SourceRef c = value ''weft.boot/source.ref'' \<and> Script c = value ''weft.boot/script''"
proof -
  note mir = mirror [OF assms(1-7)]
  have field: "v = (case map_of (ps_Properties ps) key of None \<Rightarrow> [] | Some v \<Rightarrow> v)"
    if rd: "readOptionalFile (filepath_Join [root, key]) t = (Inr v, t1)"
      and k: "validate_key key = None" "canonical key" "filepath_Ext key \<noteq> ''.tmp''"
      and t: "os_tree t = os_tree s' \<and> faults t = faults s'" for key v t t1
  proof (rule mirrored_field [OF _ _ assms(3,4,2) k(1,2) _ _ rd])
    have "file_content t n = file_content s' n" for n unfolding file_content_def conjunct1 [OF t] ..
    with conjunct1 [OF mir]
    show "\<forall>k v. map_of (ps_Properties ps) k = Some v \<longrightarrow> file_content t (filepath_Join [root, k]) = Some v" by simp
    show "only_props r (fst ` set (ps_Properties ps)) (lookup t)" using conjunct2 [OF mir] t by simp
    show "healthy t" using assms(8) healthy_tree [OF t] by simp
    show "filepath_Ext (path_string (r @ key_path key)) \<noteq> ''.tmp''" using path_string_Ext [OF k(2)] k(3) by simp
  qed
  from assms(9) obtain v1 t1 v2 t2 v3 t3 v4 t4 where
    1: "readOptionalFile (filepath_Join [root, ''weft.boot/source.kind'']) s' = (Inr v1, t1)" and
    2: "readOptionalFile (filepath_Join [root, ''weft.boot/source.url'']) t1 = (Inr v2, t2)" and
    3: "readOptionalFile (filepath_Join [root, ''weft.boot/source.ref'']) t2 = (Inr v3, t3)" and
    4: "readOptionalFile (filepath_Join [root, ''weft.boot/script'']) t3 = (Inr v4, t4)" and
    c: "c = \<lparr>SourceKind = TrimRight v1 [LF], SourceURL = TrimRight v2 [LF], SourceRef = TrimRight v3 [LF],
      Script = TrimRight v4 [LF]\<rparr>"
    by (auto simp: ReadFromPropertiesDir_def boot_fields_def split: prod.splits sum.splits)
  note t1 = readOptionalFile_tree [OF 1]
  have t2: "os_tree t2 = os_tree s' \<and> faults t2 = faults s'" using readOptionalFile_tree [OF 2] t1 by simp
  have t3: "os_tree t3 = os_tree s' \<and> faults t3 = faults s'" using readOptionalFile_tree [OF 3] t2 by simp
  have "v1 = (case map_of (ps_Properties ps) ''weft.boot/source.kind'' of None \<Rightarrow> [] | Some v \<Rightarrow> v)"
    by (rule field [OF 1]) (code_simp, code_simp, code_simp, simp)
  moreover have "v2 = (case map_of (ps_Properties ps) ''weft.boot/source.url'' of None \<Rightarrow> [] | Some v \<Rightarrow> v)"
    by (rule field [OF 2 _ _ _ t1]) code_simp+
  moreover have "v3 = (case map_of (ps_Properties ps) ''weft.boot/source.ref'' of None \<Rightarrow> [] | Some v \<Rightarrow> v)"
    by (rule field [OF 3 _ _ _ t2]) code_simp+
  moreover have "v4 = (case map_of (ps_Properties ps) ''weft.boot/script'' of None \<Rightarrow> [] | Some v \<Rightarrow> v)"
    by (rule field [OF 4 _ _ _ t3]) code_simp+
  ultimately show ?thesis unfolding c Let_def by simp
qed

section \<open>An example\<close>

definition sh_demo :: "(string, string) shell" where
  "sh_demo = \<lparr>sh_Parse = Inr, sh_New = (\<lambda>_ _. None), sh_Run = (\<lambda>_ f s. (if f = ''false'' then Some ''exit 1'' else None, f, s))\<rparr>"

definition runner_demo :: "string Runner" where
  "runner_demo = \<lparr>WorkDir = ''/root/w'', SentinelPath = ''/root/s'', LogOut = True,
     Cloner = Some (\<lambda>_ _ _ s. (None, s)), Puller = None\<rparr>"

definition world_demo :: boot_world where
  "world_demo = \<lparr>bw_os = os_demo, bw_out = [], bw_done = []\<rparr>"

abbreviation config_demo :: "string \<Rightarrow> Config" where
  "config_demo kind \<equiv> \<lparr>SourceKind = kind, SourceURL = ''u'', SourceRef = ''r'', Script = ''ls''\<rparr>"

lemma demo_paths:
  "kpath (SentinelPath runner_demo) = Inr [''root'', ''s'']" "kpath (WorkDir runner_demo) = Inr [''root'', ''w'']"
  "abs_file (SentinelPath runner_demo)" "target_file (SentinelPath runner_demo) = [''root'', ''s'']"
  by code_simp+

lemma prod_fst: "fst x = a \<Longrightarrow> x = (a, snd x)"
  by auto

theorem boot_runs_once_witness:
  "\<exists>w2. Run sh_demo runner_demo (config_demo ''oci'') (snd (Run sh_demo runner_demo (config_demo ''git'') world_demo)) = (None, w2)"
proof -
  let ?r = "Run sh_demo runner_demo (config_demo ''git'') world_demo"
  have "fst ?r = None" by code_simp
  note 1 = prod_fst [OF this]
  have "wf_tree (os_tree (bw_os (snd ?r)))" by code_simp
  note 2 = wf_tree_wf_map [OF this]
  have 3: "fault_of (bw_os (snd ?r)) = None" by code_simp
  from boot_runs_once [OF 1 demo_paths(1) 2 3 refl] show ?thesis by blast
qed

theorem boot_does_what_it_is_told_witness:
  "\<exists>cwd. bw_done (snd (Run sh_demo runner_demo (config_demo ''git'') world_demo)) =
     [Cloned ''u'' ''r'' ''/root/w/payload'', Ran ''ls'' cwd]"
proof -
  let ?r = "Run sh_demo runner_demo (config_demo ''git'') world_demo"
  have "fst ?r = None" by code_simp
  note 1 = prod_fst [OF this]
  have 2: "fst (os_Stat (SentinelPath runner_demo) (bw_os world_demo)) = Inl ENOENT" by code_simp
  have 3: "plan (config_demo ''git'') (filepath_Join [WorkDir runner_demo, ''payload'']) d = [Cloned ''u'' ''r'' ''/root/w/payload'', Ran ''ls'' d]" for d
  proof -
    have "TrimSpace ''ls'' \<noteq> []" and "filepath_Join [WorkDir runner_demo, ''payload''] = ''/root/w/payload''" by code_simp+
    then show ?thesis by (simp add: plan_def)
  qed
  from conjunct2 [OF boot_does_what_it_is_told [OF 1 2 demo_paths(1)]] show ?thesis unfolding 3 by (auto simp: world_demo_def)
qed

theorem boot_failure_leaves_no_sentinel_witness:
  "lookup (bw_os (snd (Run sh_demo runner_demo (config_demo ''oci'') world_demo))) [''root'', ''s''] = None"
proof -
  let ?r = "Run sh_demo runner_demo (config_demo ''oci'') world_demo"
  have "fst ?r = Some NoPuller" by code_simp
  note 1 = prod_fst [OF this]
  have 2: "hooks_spare (target_file (SentinelPath runner_demo)) sh_demo runner_demo"
    by (simp add: hooks_spare_def sh_demo_def runner_demo_def)
  have 3: "lookup (bw_os world_demo) (target_file (SentinelPath runner_demo)) = None"
    by (simp add: demo_paths world_demo_def os_demo_def)
  from boot_failure_leaves_no_sentinel [OF 1 _ 2 demo_paths(3) _ 3] show ?thesis by (simp add: demo_paths)
qed

text \<open>A minute between rounds and nothing happening.\<close>

definition env_demo :: "nat \<Rightarrow> poll" where
  "env_demo i = \<lparr>p_shutdown = False, p_interrupt = False, p_now = int i * 60 * second, p_took = 0, p_world = (\<lambda>_. world_demo)\<rparr>"

theorem watcher_ends_witness:
  "\<exists>out. watchAndRunBoot 152 sh_demo runner_demo ''/root/p'' 0 env_demo None world_demo = Some out"
proof (rule watcher_ends [where j = 151])
  show "\<forall>i. 0 + int i * pollEvery \<le> p_now (env_demo i)" by (simp add: env_demo_def pollEvery_def)
  have "fst (ReadFromPropertiesDir ''/root/p'' (snd (os_Stat ''/root/s'' os_demo))) =
      Inr \<lparr>SourceKind = [], SourceURL = [], SourceRef = [], Script = []\<rparr>" by code_simp
  then show "\<not> unreadable runner_demo ''/root/p'' (env_demo 151)
      (world_after 151 sh_demo runner_demo ''/root/p'' (0 + maxWait) env_demo 0 world_demo)"
    by (simp add: unreadable_def env_demo_def world_demo_def runner_demo_def del: world_after.simps)
qed simp_all

theorem watcher_never_ends_witness:
  "\<forall>n. watchAndRunBoot n sh_demo runner_demo ''/root'' 0 (\<lambda>i. (env_demo i)\<lparr>p_world := \<lambda>w. w\<rparr>) None
     (world_demo\<lparr>bw_os := os_demo\<lparr>os_tree := os_tree os_demo @
        [([''root'', ''weft.boot''], Directory root_attr), ([''root'', ''weft.boot'', ''script''], Directory root_attr)]\<rparr>\<rparr>) = None"
proof (intro allI, rule watcher_never_ends)
  let ?os = "os_demo\<lparr>os_tree := os_tree os_demo @
        [([''root'', ''weft.boot''], Directory root_attr), ([''root'', ''weft.boot'', ''script''], Directory root_attr)]\<rparr>"
  have "wf_tree (os_tree ?os)" by code_simp
  then have "wf_map (lookup ?os)" by (rule wf_tree_wf_map)
  then have "healthy ?os" unfolding healthy_def calm_def by (simp add: os_demo_def)
  moreover have "kpath (filepath_Join [''/root'', ''weft.boot/script'']) = Inr [''root'', ''weft.boot'', ''script'']" by code_simp
  moreover have "kpath (SentinelPath runner_demo) = Inr [''root'', ''s'']" by (rule demo_paths)
  ultimately show "script_blocked runner_demo ''/root'' (world_demo\<lparr>bw_os := ?os\<rparr>)"
    by (simp add: script_blocked_def os_demo_def)
qed (simp_all add: env_demo_def)

theorem boot_reads_published_witness:
  "case ReadFromPropertiesDir ''/root''
       (snd (propertiesApplyer ''/root'' \<lparr>ps_Properties = [(''weft.boot/script'', ''ls'' @ [LF])]\<rparr> os_demo)) of
     (Inr c, _) \<Rightarrow> Script c = ''ls'' \<and> SourceKind c = [] | _ \<Rightarrow> False"
proof -
  let ?ps = "\<lparr>ps_Properties = [(''weft.boot/script'', ''ls'' @ [LF])]\<rparr>"
  let ?a = "propertiesApplyer ''/root'' ?ps os_demo"
  let ?c = "\<lparr>SourceKind = [], SourceURL = [], SourceRef = [], Script = ''ls''\<rparr>"
  have 1: "PropertySet_Validate ?ps = None" by code_simp
  have 2: "\<forall>k \<in> fst ` set (ps_Properties ?ps). canonical k" by code_simp
  have "fst ?a = None" by code_simp
  note 3 = prod_fst [OF this]
  have "wf_tree (os_tree (snd ?a))" by code_simp
  then have wf: "wf_map (lookup (snd ?a))" by (rule wf_tree_wf_map)
  have "calm os_demo" using os_demo_healthy by (simp add: healthy_def)
  then have "calm (snd ?a)" using same_env_calm [OF propertiesApplyer_env] by blast
  with wf have 4: "healthy (snd ?a)" unfolding healthy_def by blast
  have "fst (ReadFromPropertiesDir ''/root'' (snd ?a)) = Inr ?c" by code_simp
  note 5 = prod_fst [OF this]
  have "TrimRight (''ls'' @ [LF]) [LF] = ''ls''" by code_simp
  with boot_reads_published [OF 1 2 kpath_root os_demo_healthy os_demo_names 3 4 5] show ?thesis
    by (subst 5) (simp add: Let_def TrimRight_def)
qed

end
