(* ===== verification/Guestplane.thy ===== *)
theory Guestplane
  imports Weft_Prelude
begin

text \<open>
  Package \<open>guestplane\<close>: the guest's end of the control stream to the host.  \<open>dispatchControl\<close> routes one
  request; \<open>runOnce\<close> dials, shakes hands and then runs a heartbeat and a receive loop beside each other,
  which is a step relation on the state of an attached session; \<open>Run\<close> reconnects for ever.

  The dispatcher's callbacks act on a world of type \<open>'w\<close>.  The vsock device and gRPC are parameters: what
  each call returns is part of the environment of a run.  A sub-message that is nil has the values of
  its getters, so requests carry the fields themselves.
\<close>

section \<open>Messages\<close>

record ExecInContainer =
  e_ContainerId :: string
  e_Command :: "string list"
  e_Env :: "(string \<times> string) list"
  e_Tty :: bool

record UpdateContainer =
  u_ContainerId :: string
  u_Command :: "string list"
  u_Env :: "(string \<times> string) list"

datatype control_op = OpStopPod u32 | OpKill string string | OpExec ExecInContainer | OpUpdate UpdateContainer | OpNone

record ControlRequest =
  cr_CallId :: u64
  cr_Op :: control_op

record ControlResponse =
  resp_CallId :: u64
  resp_Error :: string

datatype GuestFrame = Hello string string string u32 | HelloAck "nat option" | PodStatus string u64
  | ControlReq ControlRequest | ControlResp ControlResponse | OtherFrame

section \<open>Dispatch\<close>

type_synonym 'w callback = "'w \<Rightarrow> string err \<times> 'w"

record 'w Dispatcher =
  d_StopPod :: "(u32 \<Rightarrow> 'w callback) option"
  d_Kill :: "(string \<Rightarrow> string \<Rightarrow> 'w callback) option"
  d_Exec :: "(ExecInContainer \<Rightarrow> 'w callback) option"
  d_Update :: "(UpdateContainer \<Rightarrow> 'w callback) option"

definition unwired :: string where
  "unwired = ''guestplane: control dispatch not yet routed to in-guest reconciler''"

text \<open>What the response says about a callback: its error text, or nothing.\<close>

definition respond :: "u64 \<Rightarrow> string err \<times> 'w \<Rightarrow> ControlResponse \<times> 'w" where
  "respond cid r = (\<lparr>resp_CallId = cid, resp_Error = (case fst r of None \<Rightarrow> [] | Some e \<Rightarrow> e)\<rparr>, snd r)"

definition dispatchControl :: "'w Dispatcher option \<Rightarrow> ControlRequest \<Rightarrow> 'w \<Rightarrow> ControlResponse \<times> 'w" where
  "dispatchControl dp cr w =
     (let cid = cr_CallId cr; not_wired = (\<lparr>resp_CallId = cid, resp_Error = unwired\<rparr>, w) in
      case dp of
        None \<Rightarrow> not_wired
      | Some d \<Rightarrow> (case cr_Op cr of
          OpStopPod grace \<Rightarrow> (case d_StopPod d of None \<Rightarrow> not_wired | Some f \<Rightarrow> respond cid (f grace w))
        | OpKill ctr sig \<Rightarrow> (case d_Kill d of
            None \<Rightarrow> not_wired
          | Some f \<Rightarrow> respond cid (f ctr (if sig = [] then ''SIGTERM'' else sig) w))
        | OpExec e \<Rightarrow> (case d_Exec d of None \<Rightarrow> not_wired | Some f \<Rightarrow> respond cid (f e w))
        | OpUpdate u \<Rightarrow> (case d_Update d of None \<Rightarrow> not_wired | Some f \<Rightarrow> respond cid (f u w))
        | OpNone \<Rightarrow> (\<lparr>resp_CallId = cid, resp_Error = ''guestplane: unknown ControlRequest op <nil>''\<rparr>, w)))"

section \<open>Configuration\<close>

abbreviation go_second :: int where
  "go_second \<equiv> 1000000000"

definition DefaultPort :: u32 where "DefaultPort = 7777"
definition DefaultDialAttempts :: int where "DefaultDialAttempts = 60"
definition DefaultDialDelay :: int where "DefaultDialDelay = go_second"
definition DefaultHeartbeatTick :: int where "DefaultHeartbeatTick = 10 * go_second"
definition DefaultReconnectGap :: int where "DefaultReconnectGap = 5 * go_second"
definition VsockCIDHost :: u32 where "VsockCIDHost = 2"

record 'w GConfig =
  HostCID :: u32
  Port :: u32
  PodID :: string
  KernelInfo :: string
  InitVersion :: string
  HeartbeatTick :: int
  ReconnectGap :: int
  DialAttempts :: int
  DialDelay :: int
  CfgDispatcher :: "'w Dispatcher option"

definition with_defaults :: "'w GConfig \<Rightarrow> 'w GConfig" where
  "with_defaults c = c\<lparr>
     HostCID := (if HostCID c = 0 then VsockCIDHost else HostCID c),
     Port := (if Port c = 0 then DefaultPort else Port c),
     HeartbeatTick := (if HeartbeatTick c = 0 then DefaultHeartbeatTick else HeartbeatTick c),
     ReconnectGap := (if ReconnectGap c = 0 then DefaultReconnectGap else ReconnectGap c),
     DialAttempts := (if DialAttempts c = 0 then DefaultDialAttempts else DialAttempts c),
     DialDelay := (if DialDelay c = 0 then DefaultDialDelay else DialDelay c)\<rparr>"

section \<open>A session\<close>

datatype plane_error = PodIDRequired | CtxDone | DialVsock | GrpcClient | Attach | SendHello | RecvHelloAck
  | ExpectedHelloAck | SendPodStatus | Recv | SendControlResp

text \<open>\<open>DialWithRetry\<close>: how many dials are made, and whether the last one succeeded.  \<open>dial i\<close> says whether
  the \<open>i\<close>-th attempt connects.  No attempt at all returns neither a connection nor an error.\<close>

datatype dialled = Connected | NoConnection | DialError

fun dial_loop :: "nat \<Rightarrow> nat \<Rightarrow> (nat \<Rightarrow> bool) \<Rightarrow> dialled \<Rightarrow> dialled \<times> nat" where
  "dial_loop 0 i dial acc = (acc, i)"
| "dial_loop (Suc n) i dial acc = (if dial i then (Connected, Suc i) else dial_loop n (Suc i) dial DialError)"

definition DialWithRetry :: "int \<Rightarrow> (nat \<Rightarrow> bool) \<Rightarrow> dialled \<times> nat" where
  "DialWithRetry attempts dial = dial_loop (nat attempts) 0 dial NoConnection"

text \<open>What the environment does during the handshake.\<close>

record handshake =
  h_dial :: "nat \<Rightarrow> bool"
  h_client :: bool
  h_attach :: bool
  h_send :: bool
  h_cid :: u32
  h_recv :: "GuestFrame option"

text \<open>The handshake of \<open>runOnce\<close>: the frames sent, and the error that ended it.\<close>

definition shake_hands :: "'w GConfig \<Rightarrow> handshake \<Rightarrow> plane_error err \<times> GuestFrame list" where
  "shake_hands c h =
     (let hello = Hello (PodID c) (InitVersion c) (KernelInfo c) (h_cid h) in
      if fst (DialWithRetry (DialAttempts c) (h_dial h)) = DialError then (Some DialVsock, [])
      else if \<not> h_client h then (Some GrpcClient, [])
      else if \<not> h_attach h then (Some Attach, [])
      else if \<not> h_send h then (Some SendHello, [])
      else case h_recv h of
        None \<Rightarrow> (Some RecvHelloAck, [hello])
      | Some (HelloAck _) \<Rightarrow> (None, [hello])
      | Some _ \<Rightarrow> (Some ExpectedHelloAck, [hello]))"

text \<open>The attached session: the two goroutines, the channel \<open>errCh\<close> they report to, and the final select.
  \<open>requests\<close> is a ghost: the control requests received so far.\<close>

record 'w attached =
  sent :: "GuestFrame list"
  requests :: "ControlRequest list"
  errCh :: "plane_error err list"
  beating :: bool
  receiving :: bool
  ctxDone :: bool
  ended :: "plane_error err option"
  world :: 'w

definition attached_init :: "'w GConfig \<Rightarrow> GuestFrame list \<Rightarrow> 'w \<Rightarrow> 'w attached" where
  "attached_init c fs w = \<lparr>sent = fs, requests = [], errCh = [], beating = (0 < HeartbeatTick c), receiving = True,
     ctxDone = False, ended = None, world = w\<rparr>"

inductive plane_step :: "'w GConfig \<Rightarrow> 'w attached \<Rightarrow> 'w attached \<Rightarrow> bool" for c :: "'w GConfig" where
  beat: "beating s \<Longrightarrow> plane_step c s (s\<lparr>sent := sent s @ [PodStatus (PodID c) up]\<rparr>)"
| beat_fails: "beating s \<Longrightarrow> plane_step c s (s\<lparr>beating := False, errCh := errCh s @ [Some SendPodStatus]\<rparr>)"
| beat_stops: "beating s \<Longrightarrow> ctxDone s \<or> ended s \<noteq> None \<Longrightarrow> plane_step c s (s\<lparr>beating := False\<rparr>)"
| recv_request: "receiving s \<Longrightarrow> dispatchControl (CfgDispatcher c) cr (world s) = (resp, w') \<Longrightarrow>
    plane_step c s (s\<lparr>requests := requests s @ [cr], sent := sent s @ [ControlResp resp], world := w'\<rparr>)"
| recv_request_fails: "receiving s \<Longrightarrow> dispatchControl (CfgDispatcher c) cr (world s) = (resp, w') \<Longrightarrow>
    plane_step c s (s\<lparr>requests := requests s @ [cr], receiving := False, errCh := errCh s @ [Some SendControlResp], world := w'\<rparr>)"
| recv_other: "receiving s \<Longrightarrow> plane_step c s s"
| recv_eof: "receiving s \<Longrightarrow> plane_step c s (s\<lparr>receiving := False, errCh := errCh s @ [None]\<rparr>)"
| recv_error: "receiving s \<Longrightarrow> plane_step c s (s\<lparr>receiving := False, errCh := errCh s @ [Some Recv]\<rparr>)"
| cancel: "plane_step c s (s\<lparr>ctxDone := True\<rparr>)"
| end_cancelled: "ended s = None \<Longrightarrow> ctxDone s \<Longrightarrow> plane_step c s (s\<lparr>ended := Some (Some CtxDone)\<rparr>)"
| end_reported: "ended s = None \<Longrightarrow> errCh s = e # es \<Longrightarrow> plane_step c s (s\<lparr>ended := Some e, errCh := es\<rparr>)"

inductive plane_reachable :: "'w GConfig \<Rightarrow> GuestFrame list \<Rightarrow> 'w \<Rightarrow> 'w attached \<Rightarrow> bool"
  for c :: "'w GConfig" and fs :: "GuestFrame list" and w0 :: 'w where
  start: "plane_reachable c fs w0 (attached_init c fs w0)"
| more: "plane_reachable c fs w0 s \<Longrightarrow> plane_step c s s' \<Longrightarrow> plane_reachable c fs w0 s'"

section \<open>The reconnecting loop\<close>

text \<open>One round: whether the context is done at its head, how the session of the round ended, and whether
  the context is done during the wait for the gap.\<close>

record round =
  r_done :: bool
  r_session :: "plane_error err"
  r_done_waiting :: bool

datatype run_result = Failed plane_error | Reconnecting nat

text \<open>The rounds a run has made; \<open>Reconnecting n\<close> is a run that is still going after \<open>n\<close> sessions.\<close>

fun run_rounds :: "round list \<Rightarrow> nat \<Rightarrow> run_result \<times> nat" where
  "run_rounds [] n = (Reconnecting n, n)"
| "run_rounds (r # rs) n =
     (if r_done r then (Failed CtxDone, n)
      else if r_done_waiting r then (Failed CtxDone, Suc n)
      else run_rounds rs (Suc n))"

definition Run_plane :: "'w GConfig \<Rightarrow> round list \<Rightarrow> run_result \<times> nat" where
  "Run_plane c rs = (if PodID (with_defaults c) = [] then (Failed PodIDRequired, 0) else run_rounds rs 0)"

section \<open>Lemmas\<close>

inductive_cases plane_stepE: "plane_step c s s'"

text \<open>The answers to a list of requests, one after the other.\<close>

fun dispatch_all :: "'w Dispatcher option \<Rightarrow> ControlRequest list \<Rightarrow> 'w \<Rightarrow> ControlResponse list \<times> 'w" where
  "dispatch_all dp [] w = ([], w)"
| "dispatch_all dp (cr # crs) w =
     (case dispatchControl dp cr w of (r, w1) \<Rightarrow> (case dispatch_all dp crs w1 of (rs, w2) \<Rightarrow> (r # rs, w2)))"

lemma dispatch_all_snoc:
  "dispatch_all dp (crs @ [cr]) w =
     (case dispatch_all dp crs w of (rs, w1) \<Rightarrow> (case dispatchControl dp cr w1 of (r, w2) \<Rightarrow> (rs @ [r], w2)))"
  by (induction crs arbitrary: w) (auto split: prod.splits)

lemma dispatchControl_CallId: "resp_CallId (fst (dispatchControl dp cr w)) = cr_CallId cr"
  by (simp add: dispatchControl_def respond_def Let_def split: option.splits control_op.splits)

lemma dispatch_all_CallIds: "map resp_CallId (fst (dispatch_all dp crs w)) = map cr_CallId crs"
proof (induction crs arbitrary: w)
  case (Cons cr crs)
  obtain r w1 where 1: "dispatchControl dp cr w = (r, w1)" by force
  obtain rs w2 where 2: "dispatch_all dp crs w1 = (rs, w2)" by force
  from 1 2 dispatchControl_CallId [of dp cr w] Cons [of w1] show ?case by simp
qed simp

text \<open>The responses among the frames sent.\<close>

definition responses :: "GuestFrame list \<Rightarrow> ControlResponse list" where
  "responses fs = List.map_filter (\<lambda>f. case f of ControlResp r \<Rightarrow> Some r | _ \<Rightarrow> None) fs"

lemma responses_simps [simp]:
  "responses [] = []" "responses (fs @ gs) = responses fs @ responses gs"
  "responses [PodStatus p u] = []" "responses [ControlResp r] = [r]" "responses [Hello a b d e] = []"
  by (simp_all add: responses_def List.map_filter_def)

text \<open>Three invariants of a session: the requests are answered in order (the last one is missing if its
  answer could not be sent), there is room in the channel for every goroutine that can still report,
  and only heartbeats and answers are sent.\<close>

definition answered :: "'w GConfig \<Rightarrow> 'w \<Rightarrow> 'w attached \<Rightarrow> bool" where
  "answered c w0 s \<longleftrightarrow> world s = snd (dispatch_all (CfgDispatcher c) (requests s) w0) \<and>
     (responses (sent s) = fst (dispatch_all (CfgDispatcher c) (requests s) w0) \<or>
      \<not> receiving s \<and> responses (sent s) = butlast (fst (dispatch_all (CfgDispatcher c) (requests s) w0)))"

definition room :: "'w attached \<Rightarrow> bool" where
  "room s \<longleftrightarrow> length (errCh s) + of_bool (beating s) + of_bool (receiving s) \<le> 2"

definition plane_frame :: "'w GConfig \<Rightarrow> GuestFrame \<Rightarrow> bool" where
  "plane_frame c f = (case f of PodStatus p _ \<Rightarrow> p = PodID c | ControlResp _ \<Rightarrow> True | _ \<Rightarrow> False)"

lemma answered_snoc:
  assumes "answered c w0 s" and "receiving s" and "dispatchControl (CfgDispatcher c) cr (world s) = (resp, w')"
  shows "snd (dispatch_all (CfgDispatcher c) (requests s @ [cr]) w0) = w'"
    and "fst (dispatch_all (CfgDispatcher c) (requests s @ [cr]) w0) = responses (sent s) @ [resp]"
proof -
  obtain rs w where d: "dispatch_all (CfgDispatcher c) (requests s) w0 = (rs, w)" by force
  with assms(1,2) have "world s = w" "responses (sent s) = rs" by (simp_all add: answered_def)
  with d assms(3) show "snd (dispatch_all (CfgDispatcher c) (requests s @ [cr]) w0) = w'"
    and "fst (dispatch_all (CfgDispatcher c) (requests s @ [cr]) w0) = responses (sent s) @ [resp]"
    by (simp_all add: dispatch_all_snoc)
qed

lemma answered_step:
  assumes "answered c w0 s" and "plane_step c s s'"
  shows "answered c w0 s'"
  using assms(2)
proof cases
  case (recv_request cr resp w')
  with answered_snoc [OF assms(1) recv_request(2,3)] show ?thesis by (simp add: answered_def)
next
  case (recv_request_fails cr resp w')
  with answered_snoc [OF assms(1) recv_request_fails(2,3)] show ?thesis by (simp add: answered_def)
qed (use assms(1) in \<open>auto simp: answered_def\<close>)

lemma room_step: "room s \<Longrightarrow> plane_step c s s' \<Longrightarrow> room s'"
  by (erule plane_step.cases) (simp_all add: room_def)

lemma frames_step:
  "plane_step c s s' \<Longrightarrow> \<exists>gs. sent s' = sent s @ gs \<and> (\<forall>f \<in> set gs. plane_frame c f)"
  by (erule plane_step.cases) (simp_all add: plane_frame_def)

lemma plane_invariants:
  assumes "plane_reachable c fs w0 s" and "responses fs = []"
  shows "answered c w0 s" and "room s" and "\<exists>gs. sent s = fs @ gs \<and> (\<forall>f \<in> set gs. plane_frame c f)"
  using assms
proof (induction rule: plane_reachable.induct)
  case start
  {
    case 1
    then show ?case by (simp add: answered_def attached_init_def)
  next
    case 2
    show ?case by (simp add: room_def attached_init_def)
  next
    case 3
    show ?case by (simp add: attached_init_def)
  }
next
  case (more s s')
  {
    case 1
    show ?case by (rule answered_step [OF more.IH(1) [OF 1] more.hyps(2)])
  next
    case 2
    show ?case by (rule room_step [OF more.IH(2) [OF 2] more.hyps(2)])
  next
    case 3
    obtain gs hs where "sent s = fs @ gs" "sent s' = sent s @ hs" "\<forall>f \<in> set gs. plane_frame c f" "\<forall>f \<in> set hs. plane_frame c f"
      using more.IH(3) [OF 3] frames_step [OF more.hyps(2)] by blast
    then show ?case by (intro exI [of _ "gs @ hs"]) auto
  }
qed

lemma shake_hands_responses: "responses (snd (shake_hands c h)) = []"
  by (simp add: shake_hands_def Let_def split: option.splits GuestFrame.splits)

lemma run_rounds_going:
  "run_rounds rs n = (Reconnecting (n + length rs), n + length rs) \<longleftrightarrow> (\<forall>r \<in> set rs. \<not> r_done r \<and> \<not> r_done_waiting r)"
proof (induction rs arbitrary: n)
  case (Cons r rs)
  show ?case using Cons.IH [of "Suc n"] by simp
qed simp

lemma run_rounds_Failed: "fst (run_rounds rs n) = Failed e \<Longrightarrow> e = CtxDone"
  by (induction rs arbitrary: n) (auto split: if_splits)

section \<open>Properties\<close>

text \<open>C19: after a handshake, whatever the interleaving of heartbeats, requests, failures and cancellation,
  the control responses sent are the dispatcher's answers to the requests received, in order and with
  their call ids; only the last one can be missing, when its send failed and the session is ending.\<close>

theorem requests_answered_in_order:
  assumes "shake_hands c h = (None, fs)" and "plane_reachable c fs w0 s"
  shows "let rs = fst (dispatch_all (CfgDispatcher c) (requests s) w0) in map resp_CallId rs = map cr_CallId (requests s) \<and>
    (responses (sent s) = rs \<or> \<not> receiving s \<and> responses (sent s) = butlast rs)"
proof -
  have "responses fs = []" using shake_hands_responses [of c h] assms(1) by simp
  from plane_invariants(1) [OF assms(2) this] dispatch_all_CallIds [of "CfgDispatcher c" "requests s" w0]
  show ?thesis by (simp add: answered_def Let_def)
qed

text \<open>C36: the buffer of two of \<open>errCh\<close> is enough: a goroutine that can still report always finds room, so
  none is left blocked behind a session that has ended; and after the hello only heartbeats with the
  pod's id and answers are sent.\<close>

theorem plane_never_blocks:
  assumes "shake_hands c h = (None, fs)" and "plane_reachable c fs w0 s"
  shows "(beating s \<or> receiving s \<longrightarrow> length (errCh s) < 2) \<and>
    (\<exists>gs. sent s = Hello (PodID c) (InitVersion c) (KernelInfo c) (h_cid h) # gs \<and> (\<forall>f \<in> set gs. plane_frame c f))"
proof -
  have r: "responses fs = []" using shake_hands_responses [of c h] assms(1) by simp
  have "fs = [Hello (PodID c) (InitVersion c) (KernelInfo c) (h_cid h)]"
    using assms(1) by (simp add: shake_hands_def Let_def split: if_splits option.splits GuestFrame.splits)
  with plane_invariants(3) [OF assms(2) r]
  have "\<exists>gs. sent s = Hello (PodID c) (InitVersion c) (KernelInfo c) (h_cid h) # gs \<and> (\<forall>f \<in> set gs. plane_frame c f)" by simp
  moreover have "beating s \<or> receiving s \<longrightarrow> length (errCh s) < 2"
    using plane_invariants(2) [OF assms(2) r] by (auto simp: room_def)
  ultimately show ?thesis by blast
qed

text \<open>The client never gives up: with a pod id, however many sessions fail, \<open>Run\<close> goes on to make one
  more until its context is done; and it returns only then.\<close>

theorem plane_reconnects_until_cancelled:
  assumes "PodID c \<noteq> []"
  shows "(Run_plane c rs = (Reconnecting (length rs), length rs) \<longleftrightarrow> (\<forall>r \<in> set rs. \<not> r_done r \<and> \<not> r_done_waiting r)) \<and>
    (\<forall>e. fst (Run_plane c rs) = Failed e \<longrightarrow> e = CtxDone)"
  using run_rounds_going [of rs 0] run_rounds_Failed [of rs 0] assms
  by (simp add: Run_plane_def with_defaults_def)

section \<open>An example\<close>

definition config_plane :: "nat GConfig" where
  "config_plane = with_defaults \<lparr>HostCID = 0, Port = 0, PodID = ''vm1'', KernelInfo = ''6.1'', InitVersion = ''dev'',
     HeartbeatTick = 0, ReconnectGap = 0, DialAttempts = 0, DialDelay = 0,
     CfgDispatcher = Some \<lparr>d_StopPod = Some (\<lambda>g n. (None, Suc n)), d_Kill = None, d_Exec = None, d_Update = None\<rparr>\<rparr>"

definition handshake_demo :: handshake where
  "handshake_demo = \<lparr>h_dial = (\<lambda>i. i = 2), h_client = True, h_attach = True, h_send = True, h_cid = 3, h_recv = Some (HelloAck None)\<rparr>"

definition request_demo :: ControlRequest where
  "request_demo = \<lparr>cr_CallId = 7, cr_Op = OpStopPod 5\<rparr>"

lemma shake_hands_demo: "shake_hands config_plane handshake_demo = (None, [Hello ''vm1'' ''dev'' ''6.1'' 3])"
proof -
  have "fst (DialWithRetry 60 (\<lambda>i. i = 2)) = Connected" by (simp add: DialWithRetry_def eval_nat_numeral)
  then show ?thesis
    by (simp add: shake_hands_def config_plane_def with_defaults_def handshake_demo_def DefaultDialAttempts_def)
qed

lemma reachable_demo:
  "\<exists>s. plane_reachable config_plane [Hello ''vm1'' ''dev'' ''6.1'' 3] 0 s \<and> requests s = [request_demo] \<and> receiving s"
proof -
  let ?s = "attached_init config_plane [Hello ''vm1'' ''dev'' ''6.1'' 3] (0 :: nat)"
  have "plane_step config_plane ?s (?s\<lparr>requests := requests ?s @ [request_demo],
      sent := sent ?s @ [ControlResp \<lparr>resp_CallId = 7, resp_Error = []\<rparr>], world := 1\<rparr>)"
    by (rule plane_step.recv_request)
      (simp_all add: attached_init_def config_plane_def with_defaults_def dispatchControl_def respond_def request_demo_def)
  from plane_reachable.more [OF plane_reachable.start this] show ?thesis by (force simp: attached_init_def)
qed

theorem requests_answered_in_order_witness:
  "\<exists>s. plane_reachable config_plane [Hello ''vm1'' ''dev'' ''6.1'' 3] 0 s \<and> map resp_CallId (responses (sent s)) = [7]"
  using reachable_demo
proof (elim exE conjE)
  fix s
  assume s: "plane_reachable config_plane [Hello ''vm1'' ''dev'' ''6.1'' 3] 0 s" "requests s = [request_demo]" "receiving s"
  note a = requests_answered_in_order [OF shake_hands_demo s(1), unfolded Let_def]
  have "responses (sent s) = fst (dispatch_all (CfgDispatcher config_plane) (requests s) 0)"
    using conjunct2 [OF a] s(3) by simp
  then have "map resp_CallId (responses (sent s)) = map cr_CallId (requests s)" using conjunct1 [OF a] by (simp only:)
  then have "map resp_CallId (responses (sent s)) = [7]" unfolding s(2) by (simp add: request_demo_def)
  with s(1) show ?thesis by (intro exI conjI)
qed

theorem plane_never_blocks_witness:
  "\<exists>s. plane_reachable config_plane [Hello ''vm1'' ''dev'' ''6.1'' 3] 0 s \<and> receiving s \<and> length (errCh s) < 2"
proof -
  obtain s where s: "plane_reachable config_plane [Hello ''vm1'' ''dev'' ''6.1'' 3] 0 s" "receiving s"
    using reachable_demo by blast
  from plane_never_blocks [OF shake_hands_demo s(1)] s show ?thesis by blast
qed

theorem plane_reconnects_until_cancelled_witness:
  "Run_plane config_plane [\<lparr>r_done = False, r_session = Some DialVsock, r_done_waiting = False\<rparr>] = (Reconnecting 1, 1)"
proof -
  have "PodID config_plane \<noteq> []" by (simp add: config_plane_def with_defaults_def)
  from conjunct1 [OF plane_reconnects_until_cancelled [OF this,
      of "[\<lparr>r_done = False, r_session = Some DialVsock, r_done_waiting = False\<rparr>]"]]
  show ?thesis by simp
qed

end
