(* ===== verification/Network.thy ===== *)
theory Network
  imports Subscriber Pod Metrics
begin

text \<open>
  Packages \<open>mesh\<close> and \<open>firewall\<close> (whole-state updates of WireGuard and nftables) and \<open>firewallstatus\<close>
  (the emitter that reports back).  The kernel is a parameter: the \<open>ApplyFunc\<close> of the handlers and the
  \<open>ReadFunc\<close> of the emitter.
\<close>

section \<open>Handlers\<close>

definition mesh_Subject :: "string \<Rightarrow> string" where
  "mesh_Subject vmID = ''weft.mesh.'' @ vmID"

definition decode_WireGuard :: "string \<Rightarrow> WireGuard option" where
  "decode_WireGuard = Unmarshal dec_WireGuard WireGuard_zero"

definition mesh_HandleMessage :: "(WireGuard \<Rightarrow> 's \<Rightarrow> 'a err \<times> 's) \<Rightarrow> string \<Rightarrow> 's \<Rightarrow>
    (pod_error, 'a) handle_error err \<times> 's" where
  "mesh_HandleMessage apply_fn data s = (case decode_WireGuard data of
       None \<Rightarrow> (Some Undecodable, s)
     | Some wg \<Rightarrow> (case WireGuard_Validate wg of
         Some e \<Rightarrow> (Some (Invalid e), s)
       | None \<Rightarrow> (case apply_fn wg s of (e, s') \<Rightarrow> (map_option ApplyFailed e, s'))))"

definition firewall_Subject :: "string \<Rightarrow> string" where
  "firewall_Subject vmID = ''weft.firewall.'' @ vmID"

definition decode_Firewall :: "string \<Rightarrow> Firewall option" where
  "decode_Firewall = Unmarshal dec_Firewall Firewall_zero"

definition firewall_HandleMessage :: "(Firewall \<Rightarrow> 's \<Rightarrow> 'a err \<times> 's) \<Rightarrow> string \<Rightarrow> 's \<Rightarrow>
    (pod_error, 'a) handle_error err \<times> 's" where
  "firewall_HandleMessage apply_fn data s = (case decode_Firewall data of
       None \<Rightarrow> (Some Undecodable, s)
     | Some fw \<Rightarrow> (case Firewall_Validate fw of
         Some e \<Rightarrow> (Some (Invalid e), s)
       | None \<Rightarrow> (case apply_fn fw s of (e, s') \<Rightarrow> (map_option ApplyFailed e, s'))))"

text \<open>The callback of \<open>firewall.Start\<close> wraps the apply to count the rules for its log line.\<close>

definition firewall_callback :: "(Firewall \<Rightarrow> 's \<Rightarrow> 'a err \<times> 's) \<Rightarrow> string \<Rightarrow> 's \<Rightarrow>
    ((pod_error, 'a) handle_error err \<times> int) \<times> 's" where
  "firewall_callback apply_fn data s =
     (case firewall_HandleMessage (\<lambda>fw (n, s). case apply_fn fw s of (e, s') \<Rightarrow> (e, int (length (fw_Rules fw)), s')) data (0, s) of
        (e, n, s') \<Rightarrow> ((e, n), s'))"

section \<open>The status emitter\<close>

definition firewallstatus_Subject :: "string \<Rightarrow> string" where
  "firewallstatus_Subject vmID = ''weft.firewall.'' @ vmID @ ''.status''"

record Emitter =
  em_vmID :: string
  em_interval :: int
  em_hook :: bool
  em_readHook :: bool

datatype emitter_error = NilConn | EmptyVMID | NilRead

definition Emitter_New :: "bool \<Rightarrow> string \<Rightarrow> bool \<Rightarrow> int \<Rightarrow> emitter_error + Emitter" where
  "Emitter_New has_conn vmID has_read interval =
     (if \<not> has_conn then Inl NilConn
      else if vmID = [] then Inl EmptyVMID
      else if \<not> has_read then Inl NilRead
      else Inr \<lparr>em_vmID = vmID, em_interval = (if interval \<le> 0 then 10 * 1000000000 else interval),
             em_hook = False, em_readHook = False\<rparr>)"

definition SetMetricsHook :: "bool \<Rightarrow> Emitter \<Rightarrow> Emitter" where
  "SetMetricsHook h e = e\<lparr>em_hook := h\<rparr>"

definition SetReadHook :: "bool \<Rightarrow> Emitter \<Rightarrow> Emitter" where
  "SetReadHook h e = e\<lparr>em_readHook := h\<rparr>"

definition enc_FirewallStatus :: "FirewallStatus \<Rightarrow> json" where
  "enc_FirewallStatus s = JObj
     ([(''Overall'', JStr (fs_Overall s)), (''TableInstalled'', JBool (fs_TableInstalled s)),
       (''RulesInstalled'', JNum (Itoa (fs_RulesInstalled s)))]
      @ omitempty (fs_LastError s = []) ''LastError'' (JStr (fs_LastError s))
      @ [(''PublishedAtUnix'', JNum (Itoa (fs_PublishedAtUnix s)))]
      @ omitempty (fs_DropsPackets s = 0) ''DropsPackets'' (JNum (Itoa (uint (fs_DropsPackets s))))
      @ omitempty (fs_DropsBytes s = 0) ''DropsBytes'' (JNum (Itoa (uint (fs_DropsBytes s)))))"

text \<open>What an emission meets: what the kernel shows, the time, and whether the publish fails.  The hooks are
  the two methods of the recorder the agent installs; the encoding of a status cannot fail, so the
  branch of a marshal error is never taken.\<close>

record emission =
  x_status :: FirewallStatus
  x_now :: int
  x_error :: "string err"

record bus =
  bus_sent :: "(string \<times> string) list"
  bus_rec :: "Recorder option"

definition publishOnce :: "Emitter \<Rightarrow> emission \<Rightarrow> bus \<Rightarrow> bus" where
  "publishOnce e x b =
     (let rec1 = (if em_readHook e then RecordFirewallDrops (bus_rec b) (fs_DropsPackets (x_status x)) (fs_DropsBytes (x_status x))
                  else bus_rec b);
          data = json_print (enc_FirewallStatus ((x_status x)\<lparr>fs_PublishedAtUnix := x_now x\<rparr>));
          sent = (if x_error x = None then bus_sent b @ [(firewallstatus_Subject (em_vmID e), data)] else bus_sent b);
          rec2 = (if em_hook e then RecordFirewallStatusPublish rec1 (x_error x) else rec1)
      in b\<lparr>bus_sent := sent, bus_rec := rec2\<rparr>)"

text \<open>\<open>Run\<close>: one emission at once and one per tick, until the context is done.  A select that finds both
  ready may take one more tick, so the number of ticks is the environment's.\<close>

definition Emitter_Run :: "Emitter \<Rightarrow> emission \<Rightarrow> emission list \<Rightarrow> bus \<Rightarrow> bus" where
  "Emitter_Run e x xs b = fold (publishOnce e) (x # xs) b"

section \<open>Lemmas\<close>

interpretation mesh_msg: message_handler "mesh_HandleMessage apply_fn" decode_WireGuard WireGuard_Validate apply_fn for apply_fn
  by unfold_locales (auto simp: mesh_HandleMessage_def split: prod.splits)

interpretation firewall_msg: message_handler "firewall_HandleMessage apply_fn" decode_Firewall Firewall_Validate apply_fn for apply_fn
  by unfold_locales (auto simp: firewall_HandleMessage_def split: prod.splits)

lemma firewall_callback_handles:
  "snd (firewall_callback apply_fn d s) = snd (firewall_HandleMessage apply_fn d s)"
  "fst (fst (firewall_callback apply_fn d s)) = fst (firewall_HandleMessage apply_fn d s)"
  by (auto simp: firewall_callback_def firewall_HandleMessage_def split: option.splits prod.splits)

text \<open>What one emission does to the counters of an emitter with both hooks.\<close>

lemma publishOnce_counts:
  assumes "em_hook e" "em_readHook e" and "bus_rec b = Some r"
  shows "\<exists>r'. bus_rec (publishOnce e x b) = Some r' \<and>
    (\<forall>l. firewallStatusPublishes r' l = firewallStatusPublishes r l + of_bool (l = result_label (x_error x))) \<and>
    (\<exists>d. RecordFirewallDrops (Some r) (fs_DropsPackets (x_status x)) (fs_DropsBytes (x_status x)) = Some d \<and>
       firewallDropsPackets r' = firewallDropsPackets d \<and> firewallDropsBytes r' = firewallDropsBytes d \<and>
       firewallDropsLastPkt r' = firewallDropsLastPkt d \<and> firewallDropsLastByt r' = firewallDropsLastByt d)"
  using assms by (simp add: publishOnce_def RecordFirewallStatusPublish_def RecordFirewallDrops_def Let_def)

text \<open>The drop counters a recorder ends with depend only on those it starts with.\<close>

definition drops_of :: "Recorder \<Rightarrow> nat list \<times> nat list \<times> u64 \<times> u64" where
  "drops_of r = (firewallDropsPackets r, firewallDropsBytes r, firewallDropsLastPkt r, firewallDropsLastByt r)"

definition reading :: "emission \<Rightarrow> u64 \<times> u64" where
  "reading x = (fs_DropsPackets (x_status x), fs_DropsBytes (x_status x))"

lemma record_drops_all_cong:
  "drops_of r = drops_of d \<Longrightarrow>
     map_option drops_of (record_drops_all (Some r) obs) = map_option drops_of (record_drops_all (Some d) obs)"
proof (induction obs arbitrary: r d)
  case (Cons o1 obs)
  obtain p b where "o1 = (p, b)" by force
  with Cons show ?case by (simp add: RecordFirewallDrops_def drops_of_def)
qed simp

lemma emissions_counted:
  assumes "em_hook e" "em_readHook e" and "bus_rec b = Some r"
  shows "\<exists>r'. bus_rec (fold (publishOnce e) xs b) = Some r' \<and>
    (\<forall>l. firewallStatusPublishes r' l = firewallStatusPublishes r l + length (filter (\<lambda>x. l = result_label (x_error x)) xs)) \<and>
    map_option drops_of (record_drops_all (Some r) (map reading xs)) = Some (drops_of r')"
  using assms(3)
proof (induction xs arbitrary: b r)
  case (Cons x xs)
  obtain r1 d where r1: "bus_rec (publishOnce e x b) = Some r1"
    and l1: "\<forall>l. firewallStatusPublishes r1 l = firewallStatusPublishes r l + of_bool (l = result_label (x_error x))"
    and d: "RecordFirewallDrops (Some r) (fs_DropsPackets (x_status x)) (fs_DropsBytes (x_status x)) = Some d"
    and eq: "drops_of r1 = drops_of d"
    using publishOnce_counts [OF assms(1,2) Cons.prems, of x] by (auto simp: drops_of_def)
  obtain r' where r': "bus_rec (fold (publishOnce e) xs (publishOnce e x b)) = Some r'"
    and l': "\<forall>l. firewallStatusPublishes r' l = firewallStatusPublishes r1 l + length (filter (\<lambda>x. l = result_label (x_error x)) xs)"
    and d': "map_option drops_of (record_drops_all (Some r1) (map reading xs)) = Some (drops_of r')"
    using Cons.IH [OF r1] by blast
  have "map_option drops_of (record_drops_all (Some r) (map reading (x # xs))) = Some (drops_of r')"
    using d d' record_drops_all_cong [OF eq, of "map reading xs"] by (simp add: reading_def)
  with r' l1 l' show ?case by simp
qed simp

lemma emissions_sent:
  "bus_sent (fold (publishOnce e) xs b) = bus_sent b @
     map (\<lambda>x. (firewallstatus_Subject (em_vmID e), json_print (enc_FirewallStatus ((x_status x)\<lparr>fs_PublishedAtUnix := x_now x\<rparr>))))
       (filter (\<lambda>x. x_error x = None) xs)"
proof (induction xs arbitrary: b)
  case (Cons x xs)
  show ?case using Cons.IH [of "publishOnce e x b"] by (simp add: publishOnce_def Let_def)
qed simp

section \<open>Properties\<close>

text \<open>C21: what the kernel is given over a run of messages is exactly the updates that decode and validate,
  in order: messages that do not are without effect, and no rule or peer that fails validation is applied.\<close>

theorem network_updates_validated:
  "deliver (firewall_HandleMessage apply_fw) ms s = fold (\<lambda>fw s. snd (apply_fw fw s)) (passed decode_Firewall Firewall_Validate ms) s \<and>
   deliver (mesh_HandleMessage apply_wg) ms t = fold (\<lambda>wg t. snd (apply_wg wg t)) (passed decode_WireGuard WireGuard_Validate ms) t \<and>
   (\<forall>fw \<in> set (passed decode_Firewall Firewall_Validate ms). \<forall>r \<in> set (fw_Rules fw). rule_ok r) \<and>
   (\<forall>wg \<in> set (passed decode_WireGuard WireGuard_Validate ms). wg_PrivateKey wg \<noteq> [] \<and>
      (\<forall>p \<in> set (wg_Peers wg). wp_PublicKey p \<noteq> [] \<and> wp_AllowedIPs p \<noteq> []))"
proof (intro conjI ballI)
  show "deliver (firewall_HandleMessage apply_fw) ms s = fold (\<lambda>fw s. snd (apply_fw fw s)) (passed decode_Firewall Firewall_Validate ms) s"
    by (rule firewall_msg.deliver_passed)
  show "deliver (mesh_HandleMessage apply_wg) ms t = fold (\<lambda>wg t. snd (apply_wg wg t)) (passed decode_WireGuard WireGuard_Validate ms) t"
    by (rule mesh_msg.deliver_passed)
qed (use passed_valid in \<open>fastforce simp: Firewall_Validate_None WireGuard_Validate_None\<close>)+

text \<open>A run of three messages, a valid rule set between a rule without direction and no JSON at all: only
  the valid one is applied.\<close>

definition messages_demo :: "string list" where
  "messages_demo = [''{\"Rules\":[{}]}'', ''{\"Rules\":[]}'', ''no'']"

lemma messages_demo_passed:
  "map fw_Rules (passed decode_Firewall Firewall_Validate messages_demo) = [[]]"
  "passed decode_WireGuard WireGuard_Validate messages_demo = []"
  by code_simp+

lemma fold_collect: "fold (\<lambda>m s. snd (None :: string err, s @ [m])) xs acc = acc @ xs"
  by (induction xs arbitrary: acc) simp_all

theorem network_updates_validated_witness:
  "map fw_Rules (deliver (firewall_HandleMessage (\<lambda>fw s. (None :: string err, s @ [fw]))) messages_demo []) = [[]] \<and>
   deliver (mesh_HandleMessage (\<lambda>wg s. (None :: string err, s @ [wg]))) messages_demo [] = []"
proof -
  note a = network_updates_validated [of "\<lambda>fw s. (None :: string err, s @ [fw])" messages_demo "[]"
      "\<lambda>wg s. (None :: string err, s @ [wg])" "[]", unfolded fold_collect append_Nil]
  show ?thesis unfolding conjunct1 [OF a] conjunct1 [OF conjunct2 [OF a]] messages_demo_passed by (intro conjI refl)
qed



end
