(* ===== verification/Go_Proc.thy ===== *)
theory Go_Proc
  imports Go_Path Go_Json
begin

text \<open>
  What the agent uses of \<open>os/exec\<close>, \<open>bufio.Scanner\<close> and \<open>json.MarshalIndent\<close>.  The programs it runs are
  parameters, collected in \<open>exec_env\<close>: whether a name is on the path, and what a command does to the
  system.  A system is the file system, the processes the agent has started and not yet reaped, and
  a part of type \<open>'x\<close> only the programs know.
\<close>

section \<open>Commands\<close>

record 'x sys =
  sys_os :: os
  sys_procs :: "nat list"
  sys_rest :: 'x

record 'x exec_env =
  LookPath :: "string \<Rightarrow> bool"
  cmd_Run :: "string list \<Rightarrow> 'x sys \<Rightarrow> string err \<times> 'x sys"
  cmd_Output :: "string list \<Rightarrow> 'x sys \<Rightarrow> (string + string) \<times> 'x sys"
  cmd_Start :: "string list \<Rightarrow> 'x sys \<Rightarrow> (string + nat) \<times> 'x sys"

text \<open>\<open>Process.Kill\<close> followed by the wait for the reaper.\<close>

definition kill_wait :: "nat \<Rightarrow> 'x sys \<Rightarrow> 'x sys" where
  "kill_wait pid s = s\<lparr>sys_procs := removeAll pid (sys_procs s)\<rparr>"

text \<open>A command that runs to its end leaves no process of the agent behind that was not there before.\<close>

definition starts_nothing :: "'x exec_env \<Rightarrow> bool" where
  "starts_nothing env \<longleftrightarrow> (\<forall>c s. set (sys_procs (snd (cmd_Run env c s))) \<subseteq> set (sys_procs s))"

section \<open>Lines of a scanner\<close>

text \<open>\<open>bufio.ScanLines\<close> with the default buffer: the scanner stops at a line that does not fit into 64 KiB.\<close>

definition dropCR :: "string \<Rightarrow> string" where
  "dropCR l = (if l \<noteq> [] \<and> last l = CHR 0x0D then butlast l else l)"

definition raw_lines :: "string \<Rightarrow> string list" where
  "raw_lines t = (let ls = Split t LF in if last ls = [] then butlast ls else ls)"

definition scan_lines :: "string \<Rightarrow> string list" where
  "scan_lines t = map dropCR (takeWhile (\<lambda>l. int (length l) < 65536) (raw_lines t))"

section \<open>Indented output\<close>

definition newline :: "nat \<Rightarrow> string" where
  "newline n = LF # replicate (2 * n) CHR '' ''"

fun json_indent :: "nat \<Rightarrow> json \<Rightarrow> string" where
  "json_indent n (JArr js) = (if js = [] then ''[]''
     else ''['' @ newline (Suc n) @ Join (map (json_indent (Suc n)) js) ('','' @ newline (Suc n)) @ newline n @ '']'')"
| "json_indent n (JObj ms) = (if ms = [] then ''{}''
     else ''{'' @ newline (Suc n) @
       Join (map (\<lambda>(k, v). quote k @ '': '' @ json_indent (Suc n) v) ms) ('','' @ newline (Suc n)) @ newline n @ ''}'')"
| "json_indent n j = json_print j"

definition MarshalIndent :: "json \<Rightarrow> string" where
  "MarshalIndent = json_indent 0"

section \<open>Fields\<close>

abbreviation high_bytes :: "string \<Rightarrow> bool" where
  "high_bytes bs \<equiv> \<forall>x \<in> set bs. 0x80 \<le> (of_char x :: nat)"

lemma high_rune2: "0x80 \<le> (of_char c :: nat) \<Longrightarrow> high_bytes (take (snd (decode_rune2 (of_char c) (of_char c1))) (c # c1 # u))"
  by (simp add: decode_rune2_def cont_byte_def second_ok_def)

lemma high_rune3: "0x80 \<le> (of_char c :: nat) \<Longrightarrow>
  high_bytes (take (snd (decode_rune3 (of_char c) (of_char c1) (of_char c2))) (c # c1 # c2 # u))"
  by (simp add: decode_rune3_def cont_byte_def second_ok_def)

lemma high_rune4: "0x80 \<le> (of_char c :: nat) \<Longrightarrow>
  high_bytes (take (snd (decode_rune4 (of_char c) (of_char c1) (of_char c2) (of_char c3))) (c # c1 # c2 # c3 # u))"
  by (simp add: decode_rune4_def cont_byte_def second_ok_def)

lemma DecodeRune_cases:
  assumes "0x80 \<le> (of_char c :: nat)"
  obtains "DecodeRune (c # t) = (RuneError, 1)"
  | c1 u where "t = c1 # u" "DecodeRune (c # t) = decode_rune2 (of_char c) (of_char c1)"
  | c1 c2 u where "t = c1 # c2 # u" "DecodeRune (c # t) = decode_rune3 (of_char c) (of_char c1) (of_char c2)"
  | c1 c2 c3 u where "t = c1 # c2 # c3 # u"
      "DecodeRune (c # t) = decode_rune4 (of_char c) (of_char c1) (of_char c2) (of_char c3)"
proof -
  consider "t = []" | c1 where "t = [c1]" | c1 c2 where "t = [c1, c2]" | c1 c2 c3 u where "t = c1 # c2 # c3 # u"
    by (metis list.exhaust)
  note shapes = this
  consider "of_char c < (0xC2 :: nat) \<or> (0xF4 :: nat) < of_char c"
    | "(0xC2 :: nat) \<le> of_char c" "of_char c < (0xE0 :: nat)"
    | "(0xE0 :: nat) \<le> of_char c" "of_char c < (0xF0 :: nat)"
    | "(0xF0 :: nat) \<le> of_char c" "of_char c \<le> (0xF4 :: nat)" by linarith
  then show ?thesis
  proof cases
    case 1
    with assms that(1) show ?thesis by (auto simp: DecodeRune_def)
  next
    case 2
    with assms that(1,2) show ?thesis by (cases rule: shapes) (simp_all add: DecodeRune_def)
  next
    case 3
    with assms that(1,3) show ?thesis by (cases rule: shapes) (simp_all add: DecodeRune_def)
  next
    case 4
    with assms that(1,4) show ?thesis by (cases rule: shapes) (simp_all add: DecodeRune_def)
  qed
qed

lemma rune_bytes_high:
  assumes "0x80 \<le> (of_char c :: nat)"
  shows "high_bytes (take (snd (DecodeRune (c # t))) (c # t))"
  using assms
proof (cases rule: DecodeRune_cases [where t = t])
  case 1
  with assms show ?thesis by simp
next
  case (2 c1 u)
  show ?thesis unfolding 2(2) unfolding 2(1) using assms by (rule high_rune2)
next
  case (3 c1 c2 u)
  show ?thesis unfolding 3(2) unfolding 3(1) using assms by (rule high_rune3)
next
  case (4 c1 c2 c3 u)
  show ?thesis unfolding 4(2) unfolding 4(1) using assms by (rule high_rune4)
qed

lemma rune_space:
  assumes "CHR '' '' \<in> set (take (snd (DecodeRune s)) s)"
  shows "fst (DecodeRune s) = 32"
proof (cases s)
  case (Cons c t)
  show ?thesis
  proof (cases "(of_char c :: nat) < 0x80")
    case True
    with Cons assms have "c = CHR '' ''" by (simp add: DecodeRune_def)
    with Cons show ?thesis by (simp add: DecodeRune_def)
  next
    case False
    with rune_bytes_high [of c t] Cons assms show ?thesis by fastforce
  qed
qed (use assms in simp)

lemma fields_aux_no_space:
  assumes "\<forall>(r, bs) \<in> set rs. CHR '' '' \<in> set bs \<longrightarrow> r = 32" and "CHR '' '' \<notin> set cur"
  shows "\<forall>f \<in> set (fields_aux rs cur). CHR '' '' \<notin> set f"
  using assms
proof (induction rs arbitrary: cur)
  case Nil
  then show ?case by simp
next
  case (Cons p rs)
  obtain r bs where p: "p = (r, bs)" by force
  have "IsSpace 32" by (simp add: IsSpace_def)
  with Cons.prems(1) have ns: "CHR '' '' \<notin> set bs" if "\<not> IsSpace r" using that p by auto
  have rs: "\<forall>(r, bs) \<in> set rs. CHR '' '' \<in> set bs \<longrightarrow> r = 32" using Cons.prems(1) by simp
  show ?case
  proof (cases "IsSpace r")
    case True
    with p Cons.prems(2) Cons.IH [OF rs, of "[]"] show ?thesis by simp
  next
    case False
    have "CHR '' '' \<notin> set (cur @ bs)" using ns [OF False] Cons.prems(2) by simp
    from Cons.IH [OF rs this] False p show ?thesis by simp
  qed
qed

lemma runes_space: "\<forall>(r, bs) \<in> set (runes s). CHR '' '' \<in> set bs \<longrightarrow> r = 32"
  by (induction s rule: runes.induct) (subst runes.simps, auto dest: rune_space)

lemma Fields_no_space: "f \<in> set (Fields s) \<Longrightarrow> CHR '' '' \<notin> set f"
  using fields_aux_no_space [OF runes_space [of s], of "[]"] by (auto simp: Fields_def)

end
