(* ===== verification/Shares.thy ===== *)
theory Shares
  imports Go_Proc Subscriber Pod
begin

text \<open>
  Package \<open>mounts\<close> (the subscriber to share updates, with its choice between a durable and a plain
  subscription) and the vendored package \<open>cubefs\<close> behind it, which runs one \<open>cfs-client\<close> per share.
  A registry maps the ids of shares to their mounts.  The broker's replay and the programs that are
  run are parameters.
\<close>

section \<open>The client\<close>

definition runRoot :: string where
  "runRoot = ''/run/weft/cubefs''"

definition cubefs_Binary :: string where
  "cubefs_Binary = ''cfs-client''"

definition clientConfig :: "ShareMount \<Rightarrow> CubeFSMount \<Rightarrow> string \<Rightarrow> string" where
  "clientConfig spec c logDir = MarshalIndent (JObj
     ([(''mountPoint'', JStr (sm_MountPoint spec)), (''volName'', JStr (cf_Volume c)), (''owner'', JStr (cf_Owner c)),
       (''masterAddr'', JStr (Join (cf_Masters c) '','')), (''logDir'', JStr logDir), (''logLevel'', JStr ''warn'')]
      @ omitempty (cf_AccessKey c = []) ''accessKey'' (JStr (cf_AccessKey c))
      @ omitempty (cf_SecretKey c = []) ''secretKey'' (JStr (cf_SecretKey c))
      @ omitempty (cf_SubDir c = []) ''subdir'' (JStr (cf_SubDir c))
      @ omitempty (\<not> sm_Readonly spec) ''rdonly'' (JBool (sm_Readonly spec))))"

text \<open>\<open>isMounted\<close> on what \<open>/proc/mounts\<close> holds; \<^const>\<open>None\<close> if it cannot be opened.\<close>

definition isMounted :: "string option \<Rightarrow> string \<Rightarrow> bool" where
  "isMounted text target = (case text of
       None \<Rightarrow> False
     | Some t \<Rightarrow> list_ex (\<lambda>l. 2 \<le> length (Fields l) \<and> Fields l ! 1 = target) (scan_lines t))"

text \<open>The polls of a wait: what \<open>/proc/mounts\<close> holds at the \<open>i\<close>-th, and by how much the sleep after it lasts
  longer than the 200 ms asked for.\<close>

record polls =
  poll_text :: "nat \<Rightarrow> string option"
  poll_late :: "nat \<Rightarrow> nat"

abbreviation millisecond :: int where
  "millisecond \<equiv> 1000000"

function wait_loop :: "polls \<Rightarrow> string \<Rightarrow> int \<Rightarrow> int \<Rightarrow> nat \<Rightarrow> bool \<times> nat" where
  "wait_loop ps target deadline now i =
     (if isMounted (poll_text ps i) target then (True, Suc i)
      else if deadline < now then (False, Suc i)
      else wait_loop ps target deadline (now + 200 * millisecond + int (poll_late ps i)) (Suc i))"
  by pat_completeness auto
termination
  by (relation "measure (\<lambda>(ps, target, deadline, now, i). nat (deadline + 1 - now))") auto

declare wait_loop.simps [simp del]

definition waitMounted :: "polls \<Rightarrow> string \<Rightarrow> int \<Rightarrow> bool \<times> nat" where
  "waitMounted ps target timeout = wait_loop ps target timeout 0 0"

section \<open>Mounting\<close>

record Mounted =
  md_mountPoint :: string
  md_pid :: nat
  md_logf :: bool

text \<open>\<open>NilCubeFS\<close> is the panic of a nil \<open>CubeFS\<close> block.\<close>

datatype share_error = UnsupportedBackend string | MkdirMountPoint errno | MkdirRunDir errno | NilCubeFS
  | WriteConfig errno | StartClient | NotMounted string | CouldNotUnmount string

text \<open>\<open>os.Create\<close> of the log; its error only means that there is no log.\<close>

definition create_log :: "string \<Rightarrow> os \<Rightarrow> bool \<times> os" where
  "create_log name s = (case kpath name of
       Inl _ \<Rightarrow> (False, s)
     | Inr p \<Rightarrow> (case open_trunc p 0x1B6 s of (Inl _, s1) \<Rightarrow> (False, s1) | (Inr _, s1) \<Rightarrow> (True, s1)))"

definition launch :: "'x exec_env \<Rightarrow> polls \<Rightarrow> ShareMount \<Rightarrow> string \<Rightarrow> string \<Rightarrow> 'x sys \<Rightarrow> (share_error + Mounted) \<times> 'x sys" where
  "launch env ps spec cfgPath logDir s =
     (case create_log (filepath_Join [logDir, ''cfs-client.out'']) (sys_os s) of (logf, os1) \<Rightarrow>
      (case cmd_Start env [cubefs_Binary, ''-f'', ''-c'', cfgPath] (s\<lparr>sys_os := os1\<rparr>) of
         (Inl _, s2) \<Rightarrow> (Inl StartClient, s2)
       | (Inr pid, s2) \<Rightarrow>
           if fst (waitMounted ps (sm_MountPoint spec) (30000 * millisecond))
           then (Inr \<lparr>md_mountPoint = sm_MountPoint spec, md_pid = pid, md_logf = logf\<rparr>, s2)
           else (Inl (NotMounted (sm_ID spec)), kill_wait pid s2)))"

definition Mount :: "'x exec_env \<Rightarrow> polls \<Rightarrow> ShareMount \<Rightarrow> 'x sys \<Rightarrow> (share_error + Mounted) \<times> 'x sys" where
  "Mount env ps spec s =
     (let runDir = filepath_Join [runRoot, sm_ID spec]; logDir = filepath_Join [runDir, ''log'']; cfgPath = filepath_Join [runDir, ''config.json''] in
      if share_backend spec \<noteq> BackendCubeFS then (Inl (UnsupportedBackend (share_backend spec)), s)
      else case os_MkdirAll (sm_MountPoint spec) mode_0755 (sys_os s) of
        (Some e, os1) \<Rightarrow> (Inl (MkdirMountPoint e), s\<lparr>sys_os := os1\<rparr>)
      | (None, os1) \<Rightarrow> (case os_MkdirAll logDir mode_0755 os1 of
          (Some e, os2) \<Rightarrow> (Inl (MkdirRunDir e), s\<lparr>sys_os := os2\<rparr>)
        | (None, os2) \<Rightarrow> (case sm_CubeFS spec of
            None \<Rightarrow> (Inl NilCubeFS, s\<lparr>sys_os := os2\<rparr>)
          | Some c \<Rightarrow> (case os_WriteFile cfgPath (clientConfig spec c logDir) mode_0600 os2 of
              (Some e, os3) \<Rightarrow> (Inl (WriteConfig e), s\<lparr>sys_os := os3\<rparr>)
            | (None, os3) \<Rightarrow> launch env ps spec cfgPath logDir (s\<lparr>sys_os := os3\<rparr>)))))"

fun try_commands :: "'x exec_env \<Rightarrow> string list list \<Rightarrow> 'x sys \<Rightarrow> bool \<times> 'x sys" where
  "try_commands env [] s = (False, s)"
| "try_commands env (c # cs) s =
     (if \<not> LookPath env (hd c) then try_commands env cs s
      else case cmd_Run env c s of (None, s1) \<Rightarrow> (True, s1) | (Some _, s1) \<Rightarrow> try_commands env cs s1)"

definition unmount_commands :: "string \<Rightarrow> string list list" where
  "unmount_commands target = [[''fusermount3'', ''-u'', target], [''fusermount'', ''-u'', target], [''umount'', target]]"

definition unmountPath :: "'x exec_env \<Rightarrow> string \<Rightarrow> 'x sys \<Rightarrow> share_error err \<times> 'x sys" where
  "unmountPath env target s = (case try_commands env (unmount_commands target) s of
     (done, s1) \<Rightarrow> (if done then None else Some (CouldNotUnmount target), s1))"

definition Unmount :: "'x exec_env \<Rightarrow> Mounted \<Rightarrow> 'x sys \<Rightarrow> share_error err \<times> Mounted \<times> 'x sys" where
  "Unmount env m s = (case unmountPath env (md_mountPoint m) s of
     (uerr, s1) \<Rightarrow> (uerr, m\<lparr>md_logf := False\<rparr>, kill_wait (md_pid m) s1))"

section \<open>The registry\<close>

type_synonym Registry = "string \<rightharpoonup> Mounted"

definition NewRegistry :: Registry where
  "NewRegistry = Map.empty"

definition Registry_Apply :: "'x exec_env \<Rightarrow> polls \<Rightarrow> ShareMount \<Rightarrow> Registry \<times> 'x sys \<Rightarrow> share_error err \<times> Registry \<times> 'x sys" where
  "Registry_Apply env ps spec st =
     (let (r, s) = st;
          mount = (\<lambda>r1 s1. if sm_Action spec = MountActionUnmount then (None, r1, s1)
            else case Mount env ps spec s1 of
              (Inl e, s2) \<Rightarrow> (Some e, r1, s2)
            | (Inr m, s2) \<Rightarrow> (None, r1(sm_ID spec \<mapsto> m), s2))
      in case r (sm_ID spec) of
        None \<Rightarrow> mount r s
      | Some existing \<Rightarrow> (case Unmount env existing s of
          (Some e, m', s1) \<Rightarrow> (Some e, r(sm_ID spec \<mapsto> m'), s1)
        | (None, m', s1) \<Rightarrow> mount (r(sm_ID spec := None)) s1))"

text \<open>\<open>UnmountAll\<close>; the ids are visited in the order of the list.\<close>

fun unmount_each :: "'x exec_env \<Rightarrow> string list \<Rightarrow> share_error err \<Rightarrow> Registry \<times> 'x sys \<Rightarrow> share_error err \<times> Registry \<times> 'x sys" where
  "unmount_each env [] first st = (first, st)"
| "unmount_each env (i # is) first (r, s) = (case r i of
       None \<Rightarrow> unmount_each env is first (r, s)
     | Some m \<Rightarrow> (case Unmount env m s of
         (e, m', s1) \<Rightarrow> unmount_each env is (if first = None then e else first) (r(i := None), s1)))"

definition UnmountAll :: "'x exec_env \<Rightarrow> string list \<Rightarrow> Registry \<times> 'x sys \<Rightarrow> share_error err \<times> Registry \<times> 'x sys" where
  "UnmountAll env ord st = unmount_each env ord None st"

section \<open>The subscriber\<close>

definition mounts_Subject :: "string \<Rightarrow> string" where
  "mounts_Subject vmID = ''weft.mounts.'' @ vmID"

definition decode_ShareMount :: "string \<Rightarrow> ShareMount option" where
  "decode_ShareMount = Unmarshal dec_ShareMount ShareMount_zero"

definition mounts_HandleMessage :: "(ShareMount \<Rightarrow> 's \<Rightarrow> 'a err \<times> 's) \<Rightarrow> string \<Rightarrow> 's \<Rightarrow>
    (pod_error, 'a) handle_error err \<times> 's" where
  "mounts_HandleMessage apply_fn data s = (case decode_ShareMount data of
       None \<Rightarrow> (Some Undecodable, s)
     | Some m \<Rightarrow> (case ShareMount_Validate m of
         Some e \<Rightarrow> (Some (Invalid e), s)
       | None \<Rightarrow> (case apply_fn m s of (e, s') \<Rightarrow> (map_option ApplyFailed e, s'))))"

text \<open>The callback of \<open>Start\<close>: the wrapped apply captures the spec for the log line.\<close>

definition mounts_callback :: "(ShareMount \<Rightarrow> 's \<Rightarrow> 'a err \<times> 's) \<Rightarrow> string \<Rightarrow> 's \<Rightarrow>
    ((pod_error, 'a) handle_error + string) \<times> 's" where
  "mounts_callback apply_fn data s =
     (case mounts_HandleMessage (\<lambda>spec (lst, s). case apply_fn spec s of (e, s') \<Rightarrow> (e, spec, s')) data (ShareMount_zero, s) of
        (Some e, lst, s') \<Rightarrow> (Inl e, s')
      | (None, lst, s') \<Rightarrow>
          (Inr (''mounts: applied '' @ (if sm_Action lst = [] then ''mount'' else sm_Action lst) @ '' id='' @ sm_ID lst @
             '' mount='' @ sm_MountPoint lst), s'))"

definition streamName :: string where
  "streamName = ''weft-mounts''"

record stream_config =
  st_Name :: string
  st_Subjects :: "string list"
  st_MaxMsgsPerSubject :: int
  st_DiscardOld :: bool

definition mounts_stream :: stream_config where
  "mounts_stream = \<lparr>st_Name = streamName, st_Subjects = [''weft.mounts.*''], st_MaxMsgsPerSubject = 1, st_DiscardOld = True\<rparr>"

text \<open>What the broker answers: whether it has JetStream, whether the stream is known, the error of adding a
  stream, and the errors of the two kinds of subscription.\<close>

record broker =
  b_JetStream :: "string err"
  b_StreamInfo :: "string \<Rightarrow> bool"
  b_AddStream :: "stream_config \<Rightarrow> string err"
  b_JsSubscribe :: "string \<Rightarrow> string err"
  b_Subscribe :: "string \<Rightarrow> string err"

definition ensureStream :: "broker \<Rightarrow> string err" where
  "ensureStream b = (if b_StreamInfo b streamName then None else b_AddStream b mounts_stream)"

datatype subscription = CoreSub string | DurableSub string

definition core_subscribe :: "broker \<Rightarrow> string \<Rightarrow> string + subscription" where
  "core_subscribe b vmID = (case b_Subscribe b (mounts_Subject vmID) of
     Some e \<Rightarrow> Inl e | None \<Rightarrow> Inr (CoreSub (mounts_Subject vmID)))"

definition mounts_Start :: "broker \<Rightarrow> string \<Rightarrow> string + subscription" where
  "mounts_Start b vmID =
     (if b_JetStream b \<noteq> None then core_subscribe b vmID
      else if ensureStream b \<noteq> None then core_subscribe b vmID
      else if b_JsSubscribe b (mounts_Subject vmID) \<noteq> None then core_subscribe b vmID
      else Inr (DurableSub (mounts_Subject vmID)))"

section \<open>Boot-time mounts\<close>

datatype load_error = ReadShares errno | DecodeShares | InvalidShare pod_error

fun validate_shares :: "ShareMount list \<Rightarrow> pod_error err" where
  "validate_shares [] = None"
| "validate_shares (m # ms) = (case ShareMount_Validate m of Some e \<Rightarrow> Some e | None \<Rightarrow> validate_shares ms)"

definition LoadShareMounts :: "string \<Rightarrow> os \<Rightarrow> (load_error + ShareMount list) \<times> os" where
  "LoadShareMounts name s = (case os_ReadFile name s of
       (Inl e, s1) \<Rightarrow> (if e = ENOENT then Inr [] else Inl (ReadShares e), s1)
     | (Inr b, s1) \<Rightarrow> (case Unmarshal (dec_list dec_ShareMount ShareMount_zero) [] b of
         None \<Rightarrow> (Inl DecodeShares, s1)
       | Some ms \<Rightarrow> (case validate_shares ms of Some e \<Rightarrow> (Inl (InvalidShare e), s1) | None \<Rightarrow> (Inr ms, s1))))"

datatype boot_mounts_error = LoadFailed load_error | ApplyShare string share_error

fun apply_shares :: "'x exec_env \<Rightarrow> polls \<Rightarrow> ShareMount list \<Rightarrow> Registry \<times> 'x sys \<Rightarrow> boot_mounts_error err \<times> Registry \<times> 'x sys" where
  "apply_shares env ps [] st = (None, st)"
| "apply_shares env ps (m # ms) st = (case Registry_Apply env ps m st of
       (Some e, st1) \<Rightarrow> (Some (ApplyShare (sm_ID m) e), st1)
     | (None, st1) \<Rightarrow> apply_shares env ps ms st1)"

definition applyBootMounts :: "'x exec_env \<Rightarrow> polls \<Rightarrow> string \<Rightarrow> Registry \<times> 'x sys \<Rightarrow> boot_mounts_error err \<times> Registry \<times> 'x sys" where
  "applyBootMounts env ps name st = (case LoadShareMounts name (sys_os (snd st)) of
       (Inl e, os1) \<Rightarrow> (Some (LoadFailed e), fst st, (snd st)\<lparr>sys_os := os1\<rparr>)
     | (Inr ms, os1) \<Rightarrow> apply_shares env ps ms (fst st, (snd st)\<lparr>sys_os := os1\<rparr>))"

section \<open>Lemmas\<close>

interpretation mounts_msg: message_handler "mounts_HandleMessage apply_fn" decode_ShareMount ShareMount_Validate apply_fn for apply_fn
  by unfold_locales (auto simp: mounts_HandleMessage_def split: prod.splits)

lemma mounts_callback_state: "snd (mounts_callback apply_fn d s) = snd (mounts_HandleMessage apply_fn d s)"
  by (auto simp: mounts_callback_def mounts_HandleMessage_def split: option.splits prod.splits)

text \<open>A valid share that is not an unmount has the block the client needs.\<close>

lemma valid_mount_cubefs:
  "ShareMount_Validate m = None \<Longrightarrow> sm_Action m \<noteq> MountActionUnmount \<Longrightarrow> share_backend m = BackendCubeFS \<and> sm_CubeFS m \<noteq> None"
  by (auto simp: ShareMount_Validate_def split: if_splits option.splits)

text \<open>What a registry shows: the mount points of its shares.\<close>

definition shown :: "Registry \<Rightarrow> string \<rightharpoonup> string" where
  "shown r = map_option md_mountPoint \<circ> r"

lemma shown_upd [simp]:
  "shown (r(i \<mapsto> m)) = (shown r)(i \<mapsto> md_mountPoint m)" "shown (r(i := None)) = (shown r)(i := None)"
  by (auto simp: shown_def)

definition planned :: "ShareMount \<Rightarrow> (string \<rightharpoonup> string) \<Rightarrow> (string \<rightharpoonup> string)" where
  "planned m a = a(sm_ID m := (if sm_Action m = MountActionUnmount then None else Some (sm_MountPoint m)))"

lemma launch_Inr: "launch env ps spec c l s = (Inr m, s') \<Longrightarrow> md_mountPoint m = sm_MountPoint spec"
  by (auto simp: launch_def split: prod.splits sum.splits if_splits)

lemma launch_Inl: "launch env ps spec c l s = (Inl e, s') \<Longrightarrow> e \<noteq> NilCubeFS"
  by (auto simp: launch_def split: prod.splits sum.splits if_splits)

lemma Mount_Inr: "Mount env ps spec s = (Inr m, s') \<Longrightarrow> md_mountPoint m = sm_MountPoint spec"
  by (auto simp: Mount_def Let_def dest: launch_Inr split: prod.splits option.splits if_splits)

lemma Mount_no_panic: "sm_CubeFS spec \<noteq> None \<Longrightarrow> Mount env ps spec s = (Inl e, s') \<Longrightarrow> e \<noteq> NilCubeFS"
  by (auto simp: Mount_def Let_def dest: launch_Inl split: prod.splits option.splits if_splits)

lemma Unmount_mountPoint: "Unmount env m s = (e, m', s') \<Longrightarrow> md_mountPoint m' = md_mountPoint m \<and> md_pid m' = md_pid m"
  by (auto simp: Unmount_def split: prod.splits)

lemma Unmount_error: "Unmount env m s = (Some e, m', s') \<Longrightarrow> e = CouldNotUnmount (md_mountPoint m)"
  by (auto simp: Unmount_def unmountPath_def split: prod.splits if_splits)

text \<open>The two ways an apply goes: the old mount does not come down, or it is gone and the new one is tried.\<close>

lemma Registry_Apply_cases:
  obtains (stuck) m m' e s1 where "r (sm_ID spec) = Some m" "Unmount env m s = (Some e, m', s1)"
      "Registry_Apply env ps spec (r, s) = (Some e, r(sm_ID spec \<mapsto> m'), s1)"
  | (unmount) s1 where "sm_Action spec = MountActionUnmount"
      "Registry_Apply env ps spec (r, s) = (None, r(sm_ID spec := None), s1)"
  | (mounted) m s1 s2 where "sm_Action spec \<noteq> MountActionUnmount" "Mount env ps spec s1 = (Inr m, s2)"
      "Registry_Apply env ps spec (r, s) = (None, r(sm_ID spec \<mapsto> m), s2)"
  | (failed) e s1 s2 where "sm_Action spec \<noteq> MountActionUnmount" "Mount env ps spec s1 = (Inl e, s2)"
      "Registry_Apply env ps spec (r, s) = (Some e, r(sm_ID spec := None), s2)"
proof -
  have gone: "r(sm_ID spec := None) = r" if "r (sm_ID spec) = None" using that by auto
  consider (first) "r (sm_ID spec) = None"
    | (down) m m' s1 where "r (sm_ID spec) = Some m" "Unmount env m s = (None, m', s1)"
    | (up) m m' e s1 where "r (sm_ID spec) = Some m" "Unmount env m s = (Some e, m', s1)"
    by (metis not_None_eq prod_cases3)
  then show ?thesis
  proof cases
    case first
    show ?thesis
    proof (cases "sm_Action spec = MountActionUnmount")
      case True
      with first gone unmount show ?thesis by (simp add: Registry_Apply_def)
    next
      case False
      with first gone [OF first] mounted failed show ?thesis
        by (cases "Mount env ps spec s" rule: prod.exhaust; cases "fst (Mount env ps spec s)") (simp_all add: Registry_Apply_def)
    qed
  next
    case (down m m' s1)
    show ?thesis
    proof (cases "sm_Action spec = MountActionUnmount")
      case True
      with down unmount show ?thesis by (simp add: Registry_Apply_def)
    next
      case False
      with down mounted failed show ?thesis
        by (cases "Mount env ps spec s1" rule: prod.exhaust; cases "fst (Mount env ps spec s1)") (simp_all add: Registry_Apply_def)
    qed
  next
    case (up m m' e s1)
    with stuck show ?thesis by (simp add: Registry_Apply_def)
  qed
qed

lemma Registry_Apply_ok:
  assumes "Registry_Apply env ps spec (r, s) = (None, r', s')"
  shows "shown r' = planned spec (shown r)"
  by (cases rule: Registry_Apply_cases [of r spec env s ps]) (use assms in \<open>auto simp: planned_def dest: Mount_Inr\<close>)

text \<open>A failed apply either leaves the mounts as they are, or has taken the old mount of the share down.\<close>

lemma shown_same: "r i = Some m \<Longrightarrow> md_mountPoint m' = md_mountPoint m \<Longrightarrow> shown (r(i \<mapsto> m')) = shown r"
  by (auto simp: shown_def)

lemma Registry_Apply_fails:
  assumes "Registry_Apply env ps spec (r, s) = (Some e, r', s')"
  shows "shown r' = shown r \<or> sm_Action spec \<noteq> MountActionUnmount \<and> shown r' = (shown r)(sm_ID spec := None)"
proof (cases rule: Registry_Apply_cases [of r spec env s ps])
  case (stuck m m' e s1)
  with assms shown_same [of r "sm_ID spec" m m', OF stuck(1)] Unmount_mountPoint [OF stuck(2)] show ?thesis by simp
qed (use assms in auto)

lemma Registry_Apply_no_panic:
  assumes "ShareMount_Validate spec = None" and "Registry_Apply env ps spec (r, s) = (Some e, r', s')"
  shows "e \<noteq> NilCubeFS"
proof (cases rule: Registry_Apply_cases [of r spec env s ps])
  case (stuck m m' e' s1)
  with assms(2) Unmount_error [OF stuck(2)] show ?thesis by auto
next
  case (failed e' s1 s2)
  with assms(2) valid_mount_cubefs [OF assms(1)] Mount_no_panic [OF _ failed(2)] show ?thesis by simp
qed (use assms(2) in auto)

text \<open>A run of updates that are all applied.\<close>

fun all_applied :: "(ShareMount \<Rightarrow> 's \<Rightarrow> 'e err \<times> 's) \<Rightarrow> ShareMount list \<Rightarrow> 's \<Rightarrow> bool" where
  "all_applied apply_fn [] s \<longleftrightarrow> True"
| "all_applied apply_fn (m # ms) s \<longleftrightarrow> fst (apply_fn m s) = None \<and> all_applied apply_fn ms (snd (apply_fn m s))"

lemma all_applied_shown:
  "all_applied (Registry_Apply env ps) specs st \<Longrightarrow>
     shown (fst (fold (\<lambda>m st. snd (Registry_Apply env ps m st)) specs st)) = fold planned specs (shown (fst st))"
proof (induction specs arbitrary: st)
  case (Cons m specs)
  obtain r s where st: "st = (r, s)" by force
  obtain r' s' where a: "Registry_Apply env ps m (r, s) = (None, r', s')" using Cons.prems st by (metis all_applied.simps(2) prod_cases3 fst_conv)
  with Cons st Registry_Apply_ok [OF a] show ?case by simp
qed simp

text \<open>A mount whose unmount commands all fail.\<close>

definition immovable :: "'x exec_env \<Rightarrow> Mounted \<Rightarrow> bool" where
  "immovable env m \<longleftrightarrow> (\<forall>c \<in> set (unmount_commands (md_mountPoint m)). LookPath env (hd c) \<longrightarrow> (\<forall>s. fst (cmd_Run env c s) \<noteq> None))"

lemma try_commands_fail:
  "\<forall>c \<in> set cs. LookPath env (hd c) \<longrightarrow> (\<forall>s. fst (cmd_Run env c s) \<noteq> None) \<Longrightarrow> \<not> fst (try_commands env cs s)"
proof (induction cs arbitrary: s)
  case (Cons c cs)
  have rest: "\<forall>c \<in> set cs. LookPath env (hd c) \<longrightarrow> (\<forall>s. fst (cmd_Run env c s) \<noteq> None)" using Cons.prems by simp
  show ?case
  proof (cases "LookPath env (hd c)")
    case True
    obtain e s1 where c: "cmd_Run env c s = (e, s1)" by force
    have "fst (cmd_Run env c s) \<noteq> None" using Cons.prems True by simp
    then obtain x where "e = Some x" using c by auto
    with True c Cons.IH [OF rest, of s1] show ?thesis by simp
  next
    case False
    with Cons.IH [OF rest, of s] show ?thesis by simp
  qed
qed simp

lemma immovable_Unmount:
  assumes "immovable env m"
  obtains s1 where "Unmount env m s = (Some (CouldNotUnmount (md_mountPoint m)), m\<lparr>md_logf := False\<rparr>, kill_wait (md_pid m) s1)"
  using try_commands_fail [of "unmount_commands (md_mountPoint m)" env s] assms
  by (cases "try_commands env (unmount_commands (md_mountPoint m)) s")
    (simp add: Unmount_def unmountPath_def immovable_def)

lemma immovable_Apply:
  assumes "immovable env m" and "r (sm_ID spec) = Some m"
  obtains s1 where "Registry_Apply env ps spec (r, s) =
    (Some (CouldNotUnmount (md_mountPoint m)), r(sm_ID spec \<mapsto> m\<lparr>md_logf := False\<rparr>), kill_wait (md_pid m) s1)"
proof -
  obtain s1 where "Unmount env m s = (Some (CouldNotUnmount (md_mountPoint m)), m\<lparr>md_logf := False\<rparr>, kill_wait (md_pid m) s1)"
    by (rule immovable_Unmount [OF assms(1)])
  with assms(2) have "Registry_Apply env ps spec (r, s) =
    (Some (CouldNotUnmount (md_mountPoint m)), r(sm_ID spec \<mapsto> m\<lparr>md_logf := False\<rparr>), kill_wait (md_pid m) s1)"
    by (simp add: Registry_Apply_def)
  then show ?thesis by (rule that)
qed

text \<open>Unmounting everything.\<close>

lemma try_commands_procs: "starts_nothing env \<Longrightarrow> set (sys_procs (snd (try_commands env cs s))) \<subseteq> set (sys_procs s)"
proof (induction cs arbitrary: s)
  case (Cons c cs)
  obtain e s1 where c: "cmd_Run env c s = (e, s1)" by force
  have "set (sys_procs s1) \<subseteq> set (sys_procs s)" using Cons.prems c by (metis starts_nothing_def snd_conv)
  with Cons.IH [OF Cons.prems, of s1] Cons.IH [OF Cons.prems, of s] c show ?case by (auto split: option.splits)
qed simp

lemma Unmount_procs:
  assumes "starts_nothing env"
  shows "set (sys_procs (snd (snd (Unmount env m s)))) \<subseteq> set (sys_procs s) - {md_pid m}"
  using try_commands_procs [OF assms, of "unmount_commands (md_mountPoint m)" s]
  by (auto simp: Unmount_def unmountPath_def kill_wait_def split: prod.splits)

lemma unmount_each_Some:
  assumes "r i = Some m" and "Unmount env m s = (e, m', s1)"
  shows "unmount_each env (i # is) first (r, s) = unmount_each env is (if first = None then e else first) (r(i := None), s1)"
  using assms by simp

lemma unmount_each_procs:
  assumes "starts_nothing env"
  shows "set (sys_procs (snd (snd (unmount_each env is first (r, s))))) \<subseteq> set (sys_procs s)"
proof (induction "is" arbitrary: first r s)
  case (Cons i "is")
  show ?case
  proof (cases "r i")
    case (Some m)
    obtain e m' s1 where u: "Unmount env m s = (e, m', s1)" by (metis prod_cases3)
    have "set (sys_procs s1) \<subseteq> set (sys_procs s)" using Unmount_procs [OF assms, of m s] u by auto
    with Cons.IH show ?thesis unfolding unmount_each_Some [of r i, OF Some u] by (rule order_trans)
  qed (use Cons in simp)
qed simp

lemma unmount_each_registry: "fst (snd (unmount_each env is first (r, s))) i = (if i \<in> set is then None else r i)"
proof (induction "is" arbitrary: first r s)
  case (Cons j "is")
  show ?case
  proof (cases "r j")
    case (Some m)
    obtain e m' s1 where u: "Unmount env m s = (e, m', s1)" by (metis prod_cases3)
    show ?thesis unfolding unmount_each_Some [of r j, OF Some u] Cons.IH by auto
  qed (use Cons in simp)
qed simp

lemma unmount_each_killed:
  assumes "starts_nothing env" and "i \<in> set is" and "r i = Some m"
  shows "md_pid m \<notin> set (sys_procs (snd (snd (unmount_each env is first (r, s)))))"
  using assms(2,3)
proof (induction "is" arbitrary: first r s)
  case (Cons j "is")
  show ?case
  proof (cases "r j")
    case None
    with Cons have "i \<in> set is" by auto
    with Cons None show ?thesis by simp
  next
    case (Some n)
    obtain e m' s1 where u: "Unmount env n s = (e, m', s1)" by (metis prod_cases3)
    show ?thesis
    proof (cases "i = j")
      case True
      then have "n = m" using Some Cons.prems(2) by simp
      then have "md_pid m \<notin> set (sys_procs s1)" using Unmount_procs [OF assms(1), of n s] u by auto
      with unmount_each_procs [OF assms(1)] show ?thesis unfolding unmount_each_Some [of r j, OF Some u] by (rule contra_subsetD)
    next
      case False
      with Cons.prems show ?thesis unfolding unmount_each_Some [of r j, OF Some u] by (intro Cons.IH) simp_all
    qed
  qed
qed simp

lemma UnmountAll_clears:
  assumes "starts_nothing env" and "range_order r ord"
  shows "fst (snd (UnmountAll env ord (r, s))) = Map.empty"
    and "r i = Some m \<Longrightarrow> md_pid m \<notin> set (sys_procs (snd (snd (UnmountAll env ord (r, s)))))"
proof -
  have ord: "i \<in> set ord \<longleftrightarrow> r i \<noteq> None" for i using assms(2) by (auto simp: range_order_def)
  then show "fst (snd (UnmountAll env ord (r, s))) = Map.empty"
    by (auto simp: UnmountAll_def unmount_each_registry fun_eq_iff)
  show "md_pid m \<notin> set (sys_procs (snd (snd (UnmountAll env ord (r, s)))))" if "r i = Some m"
    unfolding UnmountAll_def using ord [of i] that by (intro unmount_each_killed [OF assms(1), of i]) simp_all
qed

text \<open>The wait.\<close>

lemma isMounted_no_space:
  assumes "isMounted t target"
  shows "CHR '' '' \<notin> set target"
proof -
  from assms obtain l where "2 \<le> length (Fields l)" "Fields l ! 1 = target"
    by (auto simp: isMounted_def list_ex_iff split: option.splits)
  then have "target \<in> set (Fields l)" by (metis Suc_1 Suc_le_lessD nth_mem)
  then show ?thesis by (rule Fields_no_space)
qed

lemma wait_loop_bound:
  "deadline < now + int k * (200 * millisecond) \<Longrightarrow> snd (wait_loop ps target deadline now i) \<le> i + k + 1"
proof (induction k arbitrary: now i)
  case 0
  then show ?case by (subst wait_loop.simps) simp
next
  case (Suc k)
  let ?now = "now + 200 * millisecond + int (poll_late ps i)"
  have "deadline < ?now + int k * (200 * millisecond)" using Suc.prems by (simp add: algebra_simps)
  from Suc.IH [OF this, of "Suc i"] show ?case by (subst wait_loop.simps) simp
qed

lemma wait_loop_space:
  assumes "CHR '' '' \<in> set target"
  shows "\<not> fst (wait_loop ps target deadline now i)"
proof -
  have m: "\<not> isMounted t target" for t using isMounted_no_space assms by blast
  show ?thesis
  proof (induction "nat (deadline + 1 - now)" arbitrary: now i rule: less_induct)
    case less
    show ?case
    proof (cases "deadline < now")
      case True
      with m show ?thesis by (subst wait_loop.simps) simp
    next
      case False
      then have "nat (deadline + 1 - (now + 200 * millisecond + int (poll_late ps i))) < nat (deadline + 1 - now)" by simp
      from less [OF this] m False show ?thesis by (subst wait_loop.simps) simp
    qed
  qed
qed

lemma Mount_space: "CHR '' '' \<in> set (sm_MountPoint spec) \<Longrightarrow> \<exists>e s'. Mount env ps spec s = (Inl e, s')"
proof -
  assume sp: "CHR '' '' \<in> set (sm_MountPoint spec)"
  then have "\<not> fst (waitMounted ps (sm_MountPoint spec) t)" for t by (simp add: waitMounted_def wait_loop_space)
  then have "md_mountPoint m \<noteq> sm_MountPoint spec" if "launch env ps spec c l s = (Inr m, s')" for c l s m s'
    using that by (simp add: launch_def split: prod.splits sum.splits)
  then have "launch env ps spec c l s \<noteq> (Inr m, s')" for c l s m s' using launch_Inr by blast
  then have "Mount env ps spec s \<noteq> (Inr m, s')" for m s'
    by (auto simp: Mount_def Let_def split: prod.splits option.splits if_splits)
  then show ?thesis by (metis old.sum.exhaust prod.exhaust)
qed

text \<open>The errors of a run of updates.\<close>

fun outcomes :: "(ShareMount \<Rightarrow> 's \<Rightarrow> 'e err \<times> 's) \<Rightarrow> ShareMount list \<Rightarrow> 's \<Rightarrow> 'e err list" where
  "outcomes apply_fn [] s = []"
| "outcomes apply_fn (m # ms) s = fst (apply_fn m s) # outcomes apply_fn ms (snd (apply_fn m s))"

lemma immovable_run:
  assumes "immovable env m" and "r i = Some m" and "\<forall>spec \<in> set specs. sm_ID spec = i"
  shows "outcomes (Registry_Apply env ps) specs (r, s) = replicate (length specs) (Some (CouldNotUnmount (md_mountPoint m))) \<and>
    (specs \<noteq> [] \<longrightarrow> md_pid m \<notin> set (sys_procs (snd (fold (\<lambda>m st. snd (Registry_Apply env ps m st)) specs (r, s)))))"
  using assms
proof (induction specs arbitrary: m r s)
  case (Cons spec specs)
  let ?m = "m\<lparr>md_logf := False\<rparr>"
  have id: "sm_ID spec = i" and ids: "\<forall>spec \<in> set specs. sm_ID spec = i" using Cons.prems(3) by simp_all
  have "r (sm_ID spec) = Some m" using Cons.prems(2) id by simp
  then obtain s1 where "Registry_Apply env ps spec (r, s) =
    (Some (CouldNotUnmount (md_mountPoint m)), r(sm_ID spec \<mapsto> ?m), kill_wait (md_pid m) s1)"
    by (rule immovable_Apply [OF Cons.prems(1)])
  then have a: "Registry_Apply env ps spec (r, s) =
    (Some (CouldNotUnmount (md_mountPoint m)), r(i \<mapsto> ?m), kill_wait (md_pid m) s1)" unfolding id .
  have m: "immovable env ?m" using Cons.prems(1) by (simp add: immovable_def)
  have "outcomes (Registry_Apply env ps) specs (r(i \<mapsto> ?m), kill_wait (md_pid m) s1) =
      replicate (length specs) (Some (CouldNotUnmount (md_mountPoint ?m))) \<and>
    (specs \<noteq> [] \<longrightarrow> md_pid ?m \<notin> set (sys_procs (snd (fold (\<lambda>m st. snd (Registry_Apply env ps m st)) specs
       (r(i \<mapsto> ?m), kill_wait (md_pid m) s1)))))" by (rule Cons.IH [OF m _ ids]) simp
  with a show ?case by (cases "specs = []") (simp_all add: kill_wait_def)
qed simp

text \<open>A broker's replay that keeps the last message of every subject.\<close>

definition last_per_subject :: "((string \<times> string) list \<Rightarrow> string \<Rightarrow> string list) \<Rightarrow> bool" where
  "last_per_subject replay \<longleftrightarrow> (\<forall>pub subj. replay pub subj =
     (if filter (\<lambda>p. fst p = subj) pub = [] then [] else [snd (last (filter (\<lambda>p. fst p = subj) pub))]))"

lemma shown_grows: "dom (shown (fst (snd (Registry_Apply env ps m st)))) \<subseteq> insert (sm_ID m) (dom (shown (fst st)))"
proof -
  obtain r s where st: "st = (r, s)" by force
  obtain e r' s' where a: "Registry_Apply env ps m (r, s) = (e, r', s')" by (metis prod_cases3)
  show ?thesis
  proof (cases e)
    case None
    with Registry_Apply_ok [of env ps m r s r' s'] a st show ?thesis by (auto simp: planned_def split: if_splits)
  next
    case (Some x)
    with Registry_Apply_fails [of env ps m r s x r' s'] a st show ?thesis by (auto split: if_splits)
  qed
qed

lemma shown_New [simp]: "dom (shown NewRegistry) = {}"
  by (simp add: shown_def NewRegistry_def)

lemma one_message_one_share:
  assumes "i \<in> dom (shown (fst (deliver (mounts_HandleMessage (Registry_Apply env ps)) [d] (NewRegistry, s))))"
  shows "\<exists>spec. decode_ShareMount d = Some spec \<and> sm_ID spec = i"
proof (cases "good decode_ShareMount ShareMount_Validate d")
  case True
  then obtain spec where d: "decode_ShareMount d = Some spec" by (auto simp: good_def split: option.splits)
  have "i \<in> dom (shown (fst (snd (Registry_Apply env ps spec (NewRegistry, s)))))"
    using assms unfolding deliver.simps mounts_msg.good_applied [OF True, of "Registry_Apply env ps"] d option.sel .
  with shown_grows [of env ps spec "(NewRegistry, s)"] have "sm_ID spec = i" by auto
  with d show ?thesis by blast
next
  case False
  have "i \<in> dom (shown (fst (NewRegistry, s)))"
    using assms unfolding deliver.simps conjunct1 [OF mounts_msg.bad_unchanged [OF False, of "Registry_Apply env ps"]] .
  then show ?thesis by simp
qed

section \<open>Properties\<close>

text \<open>C12: if every valid update of a run of messages is applied, the shares that are mounted, and where, are
  those of the last update of each id; an update that fails never panics on a nil block and leaves
  every other share where it is.\<close>

theorem shares_follow_updates:
  assumes "all_applied (Registry_Apply env ps) (passed decode_ShareMount ShareMount_Validate ms) st"
  shows "shown (fst (deliver (mounts_HandleMessage (Registry_Apply env ps)) ms st)) =
      fold planned (passed decode_ShareMount ShareMount_Validate ms) (shown (fst st)) \<and>
    (\<forall>spec r s e r' s'. ShareMount_Validate spec = None \<and> Registry_Apply env ps spec (r, s) = (Some e, r', s') \<longrightarrow>
       e \<noteq> NilCubeFS \<and> (\<forall>i. i \<noteq> sm_ID spec \<longrightarrow> shown r' i = shown r i))"
proof (intro conjI allI impI)
  show "shown (fst (deliver (mounts_HandleMessage (Registry_Apply env ps)) ms st)) =
      fold planned (passed decode_ShareMount ShareMount_Validate ms) (shown (fst st))"
    unfolding mounts_msg.deliver_passed by (rule all_applied_shown [OF assms])
next
  fix spec r s e r' s'
  assume a: "ShareMount_Validate spec = None \<and> Registry_Apply env ps spec (r, s) = (Some e, r', s')"
  then show "e \<noteq> NilCubeFS" using Registry_Apply_no_panic by blast
  fix i
  assume "i \<noteq> sm_ID spec"
  with Registry_Apply_fails [OF conjunct2 [OF a]] show "shown r' i = shown r i" by auto
qed

subsection \<open>A guest with one share\<close>

definition env_demo :: "unit exec_env" where
  "env_demo = \<lparr>LookPath = (\<lambda>_. True), cmd_Run = (\<lambda>_ s. (None, s)), cmd_Output = (\<lambda>_ s. (Inr [], s)),
     cmd_Start = (\<lambda>_ s. (Inr 8, s\<lparr>sys_procs := 8 # sys_procs s\<rparr>))\<rparr>"

definition env_stuck :: "unit exec_env" where
  "env_stuck = env_demo\<lparr>cmd_Run := (\<lambda>_ s. (Some ''exit status 1'', s))\<rparr>"

definition share_demo :: Mounted where
  "share_demo = \<lparr>md_mountPoint = ''/a'', md_pid = 7, md_logf = True\<rparr>"

definition guest_demo :: "Registry \<times> unit sys" where
  "guest_demo = ([''a'' \<mapsto> share_demo], \<lparr>sys_os = os_demo, sys_procs = [7], sys_rest = ()\<rparr>)"

definition polls_demo :: polls where
  "polls_demo = \<lparr>poll_text = (\<lambda>_. Some ''cfs /a fuse''), poll_late = (\<lambda>_. 0)\<rparr>"

definition unmount_demo :: ShareMount where
  "unmount_demo = ShareMount_zero\<lparr>sm_ID := ''a'', sm_Action := ''unmount'', sm_MountPoint := ''/a''\<rparr>"

definition unmount_message :: string where
  "unmount_message = ''{\"id\":\"a\",\"action\":\"unmount\",\"mount_point\":\"/a\"}''"

lemma unmount_message_passed: "passed decode_ShareMount ShareMount_Validate [unmount_message] = [unmount_demo]"
  by code_simp

lemma unmount_demo_applied:
  "Registry_Apply env_demo polls_demo unmount_demo guest_demo = (None, Map.empty, (snd guest_demo)\<lparr>sys_procs := []\<rparr>)"
  by (simp add: Registry_Apply_def guest_demo_def unmount_demo_def ShareMount_zero_def MountActionUnmount_def Unmount_def
      unmountPath_def unmount_commands_def env_demo_def share_demo_def kill_wait_def)

theorem shares_follow_updates_witness:
  "shown (fst (deliver (mounts_HandleMessage (Registry_Apply env_demo polls_demo)) [unmount_message] guest_demo)) ''a'' = None \<and>
   shown (fst guest_demo) ''a'' = Some ''/a''"
proof
  have "all_applied (Registry_Apply env_demo polls_demo) (passed decode_ShareMount ShareMount_Validate [unmount_message]) guest_demo"
    unfolding unmount_message_passed by (simp add: unmount_demo_applied)
  from conjunct1 [OF shares_follow_updates [OF this], unfolded unmount_message_passed]
  show "shown (fst (deliver (mounts_HandleMessage (Registry_Apply env_demo polls_demo)) [unmount_message] guest_demo)) ''a'' = None"
    by (simp add: planned_def unmount_demo_def MountActionUnmount_def ShareMount_zero_def)
  show "shown (fst guest_demo) ''a'' = Some ''/a''" by (simp add: shown_def guest_demo_def share_demo_def)
qed


text \<open>Two shares are published; the message of the second is all that is replayed.\<close>

definition broker_demo :: broker where
  "broker_demo = \<lparr>b_JetStream = None, b_StreamInfo = (\<lambda>_. False), b_AddStream = (\<lambda>_. None), b_JsSubscribe = (\<lambda>_. None),
     b_Subscribe = (\<lambda>_. None)\<rparr>"

definition replay_demo :: "(string \<times> string) list \<Rightarrow> string \<Rightarrow> string list" where
  "replay_demo pub subj = (if filter (\<lambda>p. fst p = subj) pub = [] then [] else [snd (last (filter (\<lambda>p. fst p = subj) pub))])"

lemma decode_b: "map_option sm_ID (decode_ShareMount ''{\"id\":\"b\"}'') = Some ''b''"
  by code_simp


text \<open>C25: a mount that cannot be unmounted, as one that is already gone, makes every later update of its share
  fail, unmount and remount alike, although its client has been killed.\<close>

theorem failed_unmount_is_for_ever:
  assumes "immovable env m" and "r i = Some m" and "\<forall>spec \<in> set specs. sm_ID spec = i" and "specs \<noteq> []"
  shows "outcomes (Registry_Apply env ps) specs (r, s) = replicate (length specs) (Some (CouldNotUnmount (md_mountPoint m))) \<and>
    md_pid m \<notin> set (sys_procs (snd (fold (\<lambda>m st. snd (Registry_Apply env ps m st)) specs (r, s))))"
  using immovable_run [of env m r i specs ps s] assms by blast

theorem failed_unmount_is_for_ever_witness:
  "outcomes (Registry_Apply env_stuck polls_demo) [unmount_demo, unmount_demo] guest_demo =
     [Some (CouldNotUnmount ''/a''), Some (CouldNotUnmount ''/a'')]"
proof -
  have 1: "immovable env_stuck share_demo" by (simp add: immovable_def env_stuck_def)
  have 2: "\<forall>spec \<in> set [unmount_demo, unmount_demo]. sm_ID spec = ''a''" by (simp add: unmount_demo_def)
  from conjunct1 [OF failed_unmount_is_for_ever [OF 1 _ 2, of "fst guest_demo" polls_demo "snd guest_demo"]]
  show ?thesis by (simp add: guest_demo_def share_demo_def)
qed

text \<open>C24: a share whose mount point has a space in it is valid but is never mounted, whatever the client does:
  the comparison with the fields of \<open>/proc/mounts\<close> cannot succeed.  The wait gives up after at most 152
  polls.\<close>

theorem space_in_mount_point_never_mounts:
  assumes "CHR '' '' \<in> set (sm_MountPoint spec)" and "sm_Action spec \<noteq> MountActionUnmount"
  shows "fst (Registry_Apply env ps spec st) \<noteq> None \<and>
    fst (waitMounted ps (sm_MountPoint spec) (30000 * millisecond)) = False \<and>
    snd (waitMounted ps (sm_MountPoint spec) (30000 * millisecond)) \<le> 152"
proof (intro conjI)
  obtain r s where st: "st = (r, s)" by force
  show "fst (Registry_Apply env ps spec st) \<noteq> None"
    unfolding st
  proof (cases rule: Registry_Apply_cases [of r spec env s ps])
    case (mounted m s1 s2)
    with Mount_space [OF assms(1), of env ps s1] show "fst (Registry_Apply env ps spec (r, s)) \<noteq> None" by simp
  qed (use assms(2) in simp_all)
  show "fst (waitMounted ps (sm_MountPoint spec) (30000 * millisecond)) = False"
    using wait_loop_space [OF assms(1)] by (simp add: waitMounted_def)
  show "snd (waitMounted ps (sm_MountPoint spec) (30000 * millisecond)) \<le> 152"
    using wait_loop_bound [of "30000 * millisecond" 0 151 ps "sm_MountPoint spec" 0] by (simp add: waitMounted_def)
qed

definition spaced_share :: ShareMount where
  "spaced_share = \<lparr>sm_ID = ''a'', sm_Action = [], sm_Backend = [], sm_MountPoint = ''/team data'', sm_Readonly = False,
     sm_CubeFS = Some \<lparr>cf_Volume = ''v'', cf_Masters = [''h:1''], cf_Owner = ''o'', cf_AccessKey = [], cf_SecretKey = [], cf_SubDir = []\<rparr>\<rparr>"

theorem space_in_mount_point_never_mounts_witness:
  "ShareMount_Validate spaced_share = None \<and> fst (Registry_Apply env_demo polls_demo spaced_share guest_demo) \<noteq> None"
proof
  show "ShareMount_Validate spaced_share = None"
    by (simp add: ShareMount_Validate_def spaced_share_def MountActionUnmount_def share_backend_def BackendCubeFS_def)
  show "fst (Registry_Apply env_demo polls_demo spaced_share guest_demo) \<noteq> None"
    by (rule conjunct1 [OF space_in_mount_point_never_mounts]) (simp_all add: spaced_share_def MountActionUnmount_def)
qed

end
