(* ===== verification/Subscribers.thy ===== *)
theory Subscribers
  imports Containers Sshkeys Properties Network Shares
begin

text \<open>
  The \<open>Start\<close> functions of the subscribers of \<open>pkg/mesh\<close>, \<open>pkg/firewall\<close>, \<open>pkg/sshkeys\<close>, \<open>pkg/properties\<close> and \<open>pkg/containers\<close>, with
  the callbacks they register (those of \<open>pkg/mounts\<close> are in \<open>Shares\<close>).  A callback returns the error it
  logs or the line it logs.  What the broker answers is the record \<open>broker\<close> of \<open>Shares\<close>.
\<close>

section \<open>Plain subscriptions\<close>

definition nc_Subscribe :: "broker \<Rightarrow> string \<Rightarrow> string + subscription" where
  "nc_Subscribe b subj = (case b_Subscribe b subj of Some e \<Rightarrow> Inl e | None \<Rightarrow> Inr (CoreSub subj))"

definition mesh_Start :: "broker \<Rightarrow> string \<Rightarrow> string + subscription" where
  "mesh_Start b vmID = nc_Subscribe b (mesh_Subject vmID)"

definition mesh_callback :: "string \<Rightarrow> (WireGuard \<Rightarrow> 's \<Rightarrow> 'a err \<times> 's) \<Rightarrow> string \<Rightarrow> 's \<Rightarrow>
    ((pod_error, 'a) handle_error + string) \<times> 's" where
  "mesh_callback vmID apply_fn data s = (case mesh_HandleMessage apply_fn data s of
       (Some e, s') \<Rightarrow> (Inl e, s')
     | (None, s') \<Rightarrow> (Inr (''mesh: applied update for '' @ vmID), s'))"

definition firewall_Start :: "broker \<Rightarrow> string \<Rightarrow> string + subscription" where
  "firewall_Start b vmID = nc_Subscribe b (firewall_Subject vmID)"

definition sshkeys_Start :: "broker \<Rightarrow> string \<Rightarrow> string + subscription" where
  "sshkeys_Start b vmID = nc_Subscribe b (sshkeys_Subject vmID)"

definition sshkeys_callback where
  "sshkeys_callback vmID apply_fn data s = (case sshkeys_HandleMessage apply_fn data s of
       (Some e, s') \<Rightarrow> (Inl e, s')
     | (None, s') \<Rightarrow> (Inr (''sshkeys: applied update for '' @ vmID @ '' ('' @ Itoa (lenAfterDecode data) @ '' keys)''), s'))"

definition properties_Start :: "broker \<Rightarrow> string \<Rightarrow> string + subscription" where
  "properties_Start b vmID = nc_Subscribe b (properties_Subject vmID)"

text \<open>The message is decoded a second time for the log line.\<close>

definition properties_count :: "string \<Rightarrow> int" where
  "properties_count data = (case decode_PropertySet data of None \<Rightarrow> 0 | Some ps \<Rightarrow> int (length (ps_Properties ps)))"

definition properties_callback where
  "properties_callback vmID apply_fn data s = (case properties_HandleMessage apply_fn data s of
       (Some e, s') \<Rightarrow> (Inl e, s')
     | (None, s') \<Rightarrow>
         (Inr (''properties: applied update for '' @ vmID @ '' ('' @ Itoa (properties_count data) @ '' keys)''), s'))"

section \<open>The durable subscription of the containers\<close>

definition containers_streamName :: string where
  "containers_streamName = ''weft-containers''"

text \<open>The source sets no discard policy; the default of the client library is to discard old messages.\<close>

definition containers_stream :: stream_config where
  "containers_stream = \<lparr>st_Name = containers_streamName, st_Subjects = [''weft.containers.*''], st_MaxMsgsPerSubject = 1, st_DiscardOld = True\<rparr>"

datatype start_error = JetStreamFailed string | EnsureStreamFailed string | SubscribeFailed string

definition containers_Start :: "broker \<Rightarrow> string \<Rightarrow> start_error + subscription" where
  "containers_Start b vmID = (case b_JetStream b of
       Some e \<Rightarrow> Inl (JetStreamFailed e)
     | None \<Rightarrow> (case (if b_StreamInfo b containers_streamName then None else b_AddStream b containers_stream) of
         Some e \<Rightarrow> Inl (EnsureStreamFailed e)
       | None \<Rightarrow> (case b_JsSubscribe b (Subject vmID) of
           Some e \<Rightarrow> Inl (SubscribeFailed e)
         | None \<Rightarrow> Inr (DurableSub (Subject vmID)))))"

text \<open>Every message is acknowledged, whatever became of it: the third component counts the acknowledgements.\<close>

definition containers_callback where
  "containers_callback rt ord data st = (case st of (r, s, acks :: nat) \<Rightarrow>
     (case HandleMessage rt ord data r s of (e, r', s') \<Rightarrow> (e, r', s', Suc acks)))"

section \<open>Lemmas\<close>

lemmas callback_defs = mesh_callback_def sshkeys_callback_def properties_callback_def

text \<open>The callbacks leave the state the handlers leave, and log an error exactly if the handler returns one.\<close>

lemma callbacks_handle:
  "snd (mesh_callback v f d s) = snd (mesh_HandleMessage f d s)"
  "snd (sshkeys_callback v g d s) = snd (sshkeys_HandleMessage g d s)"
  "snd (properties_callback v h d s) = snd (properties_HandleMessage h d s)"
  by (simp_all add: callback_defs split: prod.splits option.splits)

text \<open>The number in a log line is that of the set that was applied; the \<open>-1\<close> of \<open>lenAfterDecode\<close> is never logged.\<close>

lemma sshkeys_logged_count:
  assumes "sshkeys_callback v g d s = (Inr line, s')"
  obtains ks where "decode_KeySet d = Some ks" "g ks s = (None, s')"
    "line = ''sshkeys: applied update for '' @ v @ '' ('' @ Itoa (int (length (ks_Keys ks))) @ '' keys)''"
  using assms
  by (auto simp: sshkeys_callback_def sshkeys_HandleMessage_def lenAfterDecode_def split: option.splits prod.splits)

lemma properties_logged_count:
  assumes "properties_callback v h d s = (Inr line, s')"
  obtains ps where "decode_PropertySet d = Some ps" "h ps s = (None, s')"
    "line = ''properties: applied update for '' @ v @ '' ('' @ Itoa (int (length (ps_Properties ps))) @ '' keys)''"
  using assms
  by (auto simp: properties_callback_def properties_HandleMessage_def properties_count_def split: option.splits prod.splits)

text \<open>The subscription of the containers is durable or there is none, while that of the mounts falls back to a
  plain one.\<close>

lemma containers_Start_durable: "containers_Start b vmID = Inr sub \<Longrightarrow> sub = DurableSub (Subject vmID)"
  by (auto simp: containers_Start_def split: option.splits if_splits)

lemma no_JetStream_starts_differ:
  assumes "b_JetStream b = Some e" and "b_Subscribe b (mounts_Subject vmID) = None"
  shows "containers_Start b vmID = Inl (JetStreamFailed e)" "mounts_Start b vmID = Inr (CoreSub (mounts_Subject vmID))"
  using assms by (simp_all add: containers_Start_def mounts_Start_def core_subscribe_def)

lemma every_message_acked: "snd (snd (snd (containers_callback rt ord data (r, s, n)))) = Suc n"
  by (simp add: containers_callback_def split: prod.splits)

end
