(* ===== verification/Crun.thy ===== *)
theory Crun
  imports Containers Go_Proc
begin

text \<open>
  \<open>runtime_crun.go\<close>: the production runtime.  It renders an OCI bundle per container and drives the
  programs \<open>ncl\<close> and \<open>crun\<close>, which are parameters (\<open>exec_env\<close>); what they know of images and containers is
  the part \<open>sys_rest\<close> of the system.
\<close>

section \<open>The rendered configuration\<close>

record CrunRuntime =
  BundleRoot :: string
  NCLImagePath :: string

definition crun_argv :: "WorkloadContainer \<Rightarrow> string list" where
  "crun_argv c = (if wc_Command c = [] then [''/bin/sh'', ''-c'', ''while true; do sleep 3600; done'']
     else wc_Command c @ wc_Args c)"

text \<open>The entries of the environment are appended in the order Go visits the map, here that of the list.\<close>

definition crun_env :: "WorkloadContainer \<Rightarrow> string list" where
  "crun_env c = [''PATH=/usr/local/sbin:/usr/local/bin:/usr/sbin:/usr/bin:/sbin:/bin'', ''HOME=/root'', ''TERM=xterm'']
     @ map (\<lambda>(k, v). k @ ''='' @ v) (wc_Env c)"

definition crun_cwd :: "WorkloadContainer \<Rightarrow> string" where
  "crun_cwd c = (if wc_WorkingDir c \<noteq> [] then wc_WorkingDir c else ''/workspace'')"

definition linuxNamespaces :: "WorkloadContainer \<Rightarrow> json list" where
  "linuxNamespaces c = map (\<lambda>t. JObj [(''type'', JStr t)])
     ([''pid'', ''mount'', ''ipc'', ''uts''] @ (if wc_Net c \<noteq> ''host'' then [''network''] else []))"

definition refSafe :: "string \<Rightarrow> string" where
  "refSafe img = map (\<lambda>c. if c \<in> {CHR ''/'', CHR '':'', CHR ''@''} then CHR ''-'' else c) img"

text \<open>The keys of a Go map are marshalled in sorted order.\<close>

definition base_mounts :: "json list" where
  "base_mounts =
     [JObj [(''destination'', JStr ''/proc''), (''source'', JStr ''proc''), (''type'', JStr ''proc'')],
      JObj [(''destination'', JStr ''/sys''), (''options'', enc_strings [''nosuid'', ''noexec'', ''nodev'', ''ro'']),
        (''source'', JStr ''sysfs''), (''type'', JStr ''sysfs'')],
      JObj [(''destination'', JStr ''/dev''), (''options'', enc_strings [''nosuid'', ''strictatime'', ''mode=755'', ''size=65536k'']),
        (''source'', JStr ''tmpfs''), (''type'', JStr ''tmpfs'')],
      JObj [(''destination'', JStr ''/dev/pts''),
        (''options'', enc_strings [''nosuid'', ''noexec'', ''newinstance'', ''ptmxmode=0666'', ''mode=0620'']),
        (''source'', JStr ''devpts''), (''type'', JStr ''devpts'')]]"

definition bind_mount :: "ContainerMount \<Rightarrow> json" where
  "bind_mount m = JObj [(''destination'', JStr (cm_MountPath m)),
     (''options'', enc_strings ([''bind'', ''rprivate''] @ [if cm_Readonly m then ''ro'' else ''rw''])),
     (''source'', JStr (cm_HostPath m)), (''type'', JStr ''bind'')]"

definition crun_capabilities :: json where
  "crun_capabilities = (let caps = enc_strings [''CAP_AUDIT_WRITE'', ''CAP_KILL'', ''CAP_NET_BIND_SERVICE''] in
     JObj [(''bounding'', caps), (''effective'', caps), (''permitted'', caps)])"

definition oci_spec :: "string \<Rightarrow> WorkloadContainer \<Rightarrow> json" where
  "oci_spec src c = JObj
     [(''hostname'', JStr (wc_Name c)),
      (''linux'', JObj [(''namespaces'', JArr (linuxNamespaces c))]),
      (''mounts'', JArr (base_mounts @ map bind_mount (wc_Mounts c))),
      (''ociVersion'', JStr ''1.0.2''),
      (''process'', JObj
        [(''args'', enc_strings (crun_argv c)), (''capabilities'', crun_capabilities), (''cwd'', JStr (crun_cwd c)),
         (''env'', enc_strings (crun_env c)), (''noNewPrivileges'', JBool True), (''terminal'', JBool False),
         (''user'', JObj [(''gid'', JNum ''0''), (''uid'', JNum ''0'')])]),
      (''root'', JObj [(''path'', JStr src), (''readonly'', JBool False)])]"

section \<open>The operations\<close>

datatype crun_error = MkdirBundle errno | WriteBundle errno | CommandFailed string

definition Crun_Pull :: "'x exec_env \<Rightarrow> CrunRuntime \<Rightarrow> string \<Rightarrow> 'x sys \<Rightarrow> crun_error err \<times> 'x sys" where
  "Crun_Pull env r img s =
     (if \<not> LookPath env ''ncl'' then (None, s)
      else case cmd_Run env [''ncl'', ''pull'', ''--cache'', NCLImagePath r, img] s of
        (e, s1) \<Rightarrow> (map_option CommandFailed e, s1))"

text \<open>The root file system: the unpacked image if it is there, else the agent's own.\<close>

definition rootfs_source :: "CrunRuntime \<Rightarrow> WorkloadContainer \<Rightarrow> os \<Rightarrow> string \<times> os" where
  "rootfs_source r c s =
     (let src = filepath_Join [NCLImagePath r, refSafe (wc_Image c), ''rootfs''] in
      case os_Stat src s of
        (Inl _, s1) \<Rightarrow> (''/'', s1)
      | (Inr n, s1) \<Rightarrow> (if is_dir n then src else ''/'', s1))"

definition Crun_Start :: "'x exec_env \<Rightarrow> CrunRuntime \<Rightarrow> WorkloadContainer \<Rightarrow> 'x sys \<Rightarrow> crun_error err \<times> 'x sys" where
  "Crun_Start env r c s =
     (let bundle = filepath_Join [BundleRoot r, wc_Name c] in
      case os_MkdirAll (filepath_Join [bundle, ''rootfs'']) mode_0755 (sys_os s) of
        (Some e, os1) \<Rightarrow> (Some (MkdirBundle e), s\<lparr>sys_os := os1\<rparr>)
      | (None, os1) \<Rightarrow> (case rootfs_source r c os1 of
          (src, os2) \<Rightarrow> (case os_WriteFile (filepath_Join [bundle, ''config.json'']) (MarshalIndent (oci_spec src c)) mode_0644 os2 of
            (Some e, os3) \<Rightarrow> (Some (WriteBundle e), s\<lparr>sys_os := os3\<rparr>)
          | (None, os3) \<Rightarrow> (case cmd_Run env [''crun'', ''run'', ''--detach'', ''--bundle'', bundle, wc_Name c] (s\<lparr>sys_os := os3\<rparr>) of
              (e, s4) \<Rightarrow> (map_option CommandFailed e, s4)))))"

definition Crun_Stop :: "'x exec_env \<Rightarrow> CrunRuntime \<Rightarrow> string \<Rightarrow> 'x sys \<Rightarrow> crun_error err \<times> 'x sys" where
  "Crun_Stop env r name s =
     (let s1 = snd (cmd_Run env [''crun'', ''kill'', name, ''SIGTERM''] s);
          s2 = snd (cmd_Run env [''crun'', ''delete'', ''-f'', name] s1)
      in (None, s2\<lparr>sys_os := snd (os_RemoveAll (filepath_Join [BundleRoot r, name]) (sys_os s2))\<rparr>))"

text \<open>The loop over the output of \<open>crun list\<close>: \<open>start\<close> is where the current line begins.\<close>

fun names_loop :: "string \<Rightarrow> nat \<Rightarrow> nat \<Rightarrow> string \<Rightarrow> string list \<Rightarrow> string list" where
  "names_loop out i start [] names =
     (if start < length out then names @ [drop start out] else names)"
| "names_loop out i start (b # rest) names =
     (if b = LF then names_loop out (Suc i) (Suc i) rest
        (if start < i then names @ [take (i - start) (drop start out)] else names)
      else names_loop out (Suc i) start rest names)"

definition Crun_Running :: "'x exec_env \<Rightarrow> 'x sys \<Rightarrow> (crun_error + string list) \<times> 'x sys" where
  "Crun_Running env s = (case cmd_Output env [''crun'', ''list'', ''-q''] s of
       (Inl e, s1) \<Rightarrow> (Inl (CommandFailed e), s1)
     | (Inr out, s1) \<Rightarrow> (Inr (names_loop out 0 0 out []), s1))"

definition Crun :: "'x exec_env \<Rightarrow> CrunRuntime \<Rightarrow> ('x sys, crun_error) Runtime" where
  "Crun env r = \<lparr>rt_Pull = Crun_Pull env r, rt_Start = Crun_Start env r, rt_Stop = Crun_Stop env r, rt_Running = Crun_Running env\<rparr>"

section \<open>Lemmas\<close>

lemma Split_append_LF: "LF \<notin> set a \<Longrightarrow> Split (a @ LF # b) LF = a # Split b LF"
  by (induction a) auto

lemma Split_single: "c \<notin> set a \<Longrightarrow> Split a c = [a]"
  by (induction a) auto

lemma names_loop_lines:
  assumes "out = pre @ cur @ rest" and "start = length pre" and "i = length (pre @ cur)" and "LF \<notin> set cur"
  shows "names_loop out i start rest names = names @ filter (\<lambda>l. l \<noteq> []) (Split (cur @ rest) LF)"
  using assms
proof (induction rest arbitrary: pre cur i start names)
  case Nil
  then show ?case by (simp add: Split_single)
next
  case (Cons b rest)
  show ?case
  proof (cases "b = LF")
    case True
    have "names_loop out (Suc i) (Suc i) rest ns = ns @ filter (\<lambda>l. l \<noteq> []) (Split ([] @ rest) LF)" for ns
      using Cons.prems True by (intro Cons.IH [of "pre @ cur @ [LF]"]) simp_all
    with True Cons.prems show ?thesis by (cases "cur = []") (simp_all add: Split_append_LF)
  next
    case False
    have "names_loop out (Suc i) start rest names = names @ filter (\<lambda>l. l \<noteq> []) (Split ((cur @ [b]) @ rest) LF)"
      using Cons.prems False by (intro Cons.IH [of pre]) simp_all
    with False show ?thesis by simp
  qed
qed

text \<open>Programs that fail and leave the containers alone.\<close>

definition crun_broken :: "'x exec_env \<Rightarrow> bool" where
  "crun_broken env \<longleftrightarrow> (\<forall>c s. fst (cmd_Run env c s) \<noteq> None \<and> sys_rest (snd (cmd_Run env c s)) = sys_rest s)"

lemma Crun_Stop_broken:
  "crun_broken env \<Longrightarrow> fst (Crun_Stop env r name s) = None \<and> sys_rest (snd (Crun_Stop env r name s)) = sys_rest s"
  by (simp add: Crun_Stop_def crun_broken_def Let_def)

lemma drops_broken:
  "crun_broken env \<Longrightarrow> fst (apply_drops (Crun env r) nxt ord fe s) = fe \<and> sys_rest (snd (apply_drops (Crun env r) nxt ord fe s)) = sys_rest s"
proof (induction ord arbitrary: fe s)
  case (Cons n ord)
  obtain s1 where "Crun_Stop env r n s = (None, s1)" "sys_rest s1 = sys_rest s"
    using Crun_Stop_broken [OF Cons.prems, of r n s] by (metis prod.collapse)
  with Cons.IH [OF Cons.prems, of fe s1] Cons.IH [OF Cons.prems, of fe s] show ?case
    by (simp add: Crun_def record_error_def)
qed simp

section \<open>Properties\<close>

text \<open>The hand-written line splitter of \<open>Running\<close> returns exactly the non-empty lines of the output.\<close>

theorem crun_running_lines:
  "Crun_Running env s = (case cmd_Output env [''crun'', ''list'', ''-q''] s of
     (Inl e, s1) \<Rightarrow> (Inl (CommandFailed e), s1)
   | (Inr out, s1) \<Rightarrow> (Inr (filter (\<lambda>l. l \<noteq> []) (Split out LF)), s1))"
  using names_loop_lines [of _ "[]" "[]"] by (simp add: Crun_Running_def split: prod.splits sum.splits)

text \<open>C28: removing containers reports success whatever \<open>crun\<close> does: when every command fails and leaves the
  containers running, applying the empty set on the production runtime still returns nil and forgets
  them.\<close>

theorem crun_lost_containers:
  assumes "crun_broken env"
  shows "\<exists>s'. Apply (Crun env r) ord \<lparr>cs_Version = v, cs_Containers = []\<rparr> rc s =
      (if ContainerSetVersion < v then (Some (InvalidSet (BadVersion v)), rc, s) else (None, rc\<lparr>rc_desired := Map.empty\<rparr>, s')) \<and>
    sys_rest s' = sys_rest s"
proof -
  obtain s' where d: "apply_drops (Crun env r) (next_of []) ord None s = (None, s')" and s': "sys_rest s' = sys_rest s"
    using drops_broken [OF assms, of r "next_of []" ord None s] by (metis prod.collapse)
  show ?thesis
    by (intro exI [of _ s']) (use d s' in \<open>simp add: Apply_def ContainerSet_Validate_def ContainerSetVersion_def Let_def next_of_def\<close>)
qed

definition crun_demo :: CrunRuntime where
  "crun_demo = \<lparr>BundleRoot = ''/run/weft/containers'', NCLImagePath = ''/run/weft/images''\<rparr>"

definition os_weft :: os where
  "os_weft = os_demo\<lparr>os_tree := [([], Directory root_attr), ([''run''], Directory root_attr), ([''run'', ''weft''], Directory root_attr),
     ([''run'', ''weft'', ''containers''], Directory root_attr), ([''run'', ''weft'', ''key''], Reg root_attr ''k'')]\<rparr>"

definition env_broken :: "string list exec_env" where
  "env_broken = \<lparr>LookPath = (\<lambda>_. True), cmd_Run = (\<lambda>_ s. (Some ''exit status 1'', s)),
     cmd_Output = (\<lambda>_ s. (Inr (Join (sys_rest s) [LF]), s)), cmd_Start = (\<lambda>_ s. (Inl ''exec'', s))\<rparr>"

definition sys_weft :: "string list sys" where
  "sys_weft = \<lparr>sys_os = os_weft, sys_procs = [], sys_rest = [''web'']\<rparr>"

theorem crun_lost_containers_witness:
  "\<exists>s'. Apply (Crun env_broken crun_demo) [''web''] \<lparr>cs_Version = 1, cs_Containers = []\<rparr>
       \<lparr>rc_desired = [''web'' \<mapsto> WorkloadContainer_zero]\<rparr> sys_weft = (None, NewReconciler, s') \<and>
     sys_rest s' = [''web'']"
proof -
  have "crun_broken env_broken" by (simp add: crun_broken_def env_broken_def)
  from crun_lost_containers [OF this, of crun_demo "[''web'']" 1 "\<lparr>rc_desired = [''web'' \<mapsto> WorkloadContainer_zero]\<rparr>" sys_weft]
  show ?thesis by (simp add: ContainerSetVersion_def NewReconciler_def sys_weft_def)
qed

text \<open>The name of a container is only checked not to be empty, so a set that validates can have a
  container whose bundle is not below the bundle root, and stopping it removes what is there.\<close>

definition dotdot_set :: ContainerSet where
  "dotdot_set = \<lparr>cs_Version = 1, cs_Containers = [WorkloadContainer_zero\<lparr>wc_Name := ''..'', wc_Image := ''i''\<rparr>]\<rparr>"

theorem crun_stop_escapes_bundle_root:
  "fst (ContainerSet_Validate dotdot_set) = None \<and> map wc_Name (cs_Containers dotdot_set) = [''..''] \<and>
   file_content (sys_os sys_weft) ''/run/weft/key'' = Some ''k'' \<and>
   file_content (sys_os (snd (Crun_Stop env_broken crun_demo ''..'' sys_weft))) ''/run/weft/key'' = None"
  by code_simp

end
