(* ===== verification/Procps.thy ===== *)
theory Procps
  imports Go_Path Go_Proc "HOL-Library.Sublist"
begin

text \<open>
  Packages \<open>procps\<close> (the process table read from \<open>/proc\<close>) and \<open>introspectsrv\<close> (the service that returns it).
  The proc file system is a tree of files of \<open>os\<close>.  The floating-point operations of the derived
  percentages and the user database are parameters, since no property depends on their values.
\<close>

section \<open>Values\<close>

record 'f float64 =
  fl_uint :: "u64 \<Rightarrow> 'f"
  fl_int :: "int \<Rightarrow> 'f"
  fl_add :: "'f \<Rightarrow> 'f \<Rightarrow> 'f"
  fl_sub :: "'f \<Rightarrow> 'f \<Rightarrow> 'f"
  fl_mul :: "'f \<Rightarrow> 'f \<Rightarrow> 'f"
  fl_div :: "'f \<Rightarrow> 'f \<Rightarrow> 'f"
  fl_positive :: "'f \<Rightarrow> bool"
  fl_trunc :: "'f \<Rightarrow> int"
  ParseFloat :: "string \<Rightarrow> 'f"

text \<open>The bits of an \<open>int32\<close>.\<close>

type_synonym i32 = "32 word"

definition clkTck :: u64 where
  "clkTck = 100"

record 'f Process =
  p_PID :: i32
  p_PPID :: i32
  p_User :: string
  p_State :: string
  p_CPUPercent :: 'f
  p_MemPercent :: 'f
  p_VSZKB :: u64
  p_RSSKB :: u64
  p_TTY :: string
  p_StartTimeMS :: int
  p_Command :: string

record 'f systemInfo =
  uptimeSec :: 'f
  btimeSec :: int
  memTotalKB :: u64

record statFields =
  st_comm :: string
  st_state :: string
  st_ppid :: i32
  st_utime :: u64
  st_stime :: u64
  st_starttime :: u64

section \<open>Parsing\<close>

definition parseUint :: "string \<Rightarrow> u64" where
  "parseUint s = of_int (fst (ParseUint s 64))"

definition firstField :: "string \<Rightarrow> string" where
  "firstField s = (case Fields s of f # _ \<Rightarrow> f | [] \<Rightarrow> [])"

definition parseFirstUint :: "string \<Rightarrow> u64" where
  "parseFirstUint s = parseUint (firstField s)"

definition resolveUser :: "(string \<Rightarrow> string option) \<Rightarrow> string \<Rightarrow> string" where
  "resolveUser users uid = (if uid = [] then [] else case users uid of Some n \<Rightarrow> n | None \<Rightarrow> uid)"

definition parseStat :: "string \<Rightarrow> statFields option" where
  "parseStat s = (case (IndexByte s CHR ''('', LastIndexByte s CHR '')'') of
       (Some openIdx, Some closeIdx) \<Rightarrow>
         if closeIdx < openIdx then None
         else let rest = Fields (drop (Suc closeIdx) s) in
           if length rest < 20 then None
           else Some \<lparr>st_comm = take (closeIdx - Suc openIdx) (drop (Suc openIdx) s), st_state = rest ! 0,
             st_ppid = (case ParseInt (rest ! 1) 32 of (v, None) \<Rightarrow> of_int v | (_, Some _) \<Rightarrow> 0),
             st_utime = parseUint (rest ! 11), st_stime = parseUint (rest ! 12), st_starttime = parseUint (rest ! 19)\<rparr>
     | _ \<Rightarrow> None)"

section \<open>The machine\<close>

text \<open>The first line with a prefix, without it.\<close>

fun first_line :: "string \<Rightarrow> string list \<Rightarrow> string option" where
  "first_line pre [] = None"
| "first_line pre (l # ls) = (case CutPrefix l pre of Some rest \<Rightarrow> Some rest | None \<Rightarrow> first_line pre ls)"

definition readSystem :: "'f float64 \<Rightarrow> string \<Rightarrow> os \<Rightarrow> 'f systemInfo \<times> os" where
  "readSystem fl root s =
     (let (up, s1) = os_ReadFile (filepath_Join [root, ''uptime'']) s;
          (st, s2) = os_ReadFile (filepath_Join [root, ''stat'']) s1;
          (mem, s3) = os_ReadFile (filepath_Join [root, ''meminfo'']) s2
      in (\<lparr>uptimeSec = (case up of
               Inr b \<Rightarrow> (case Fields b of f # _ \<Rightarrow> ParseFloat fl f | [] \<Rightarrow> fl_int fl 0)
             | Inl _ \<Rightarrow> fl_int fl 0),
           btimeSec = (case st of
               Inr b \<Rightarrow> (case first_line ''btime '' (Split b LF) of Some rest \<Rightarrow> fst (ParseInt (TrimSpace rest) 64) | None \<Rightarrow> 0)
             | Inl _ \<Rightarrow> 0),
           memTotalKB = (case mem of
               Inr b \<Rightarrow> (case first_line ''MemTotal:'' (Split b LF) of Some rest \<Rightarrow> parseFirstUint rest | None \<Rightarrow> 0)
             | Inl _ \<Rightarrow> 0)\<rparr>, s3))"

section \<open>A process\<close>

text \<open>What the lines of \<open>status\<close> contribute.\<close>

definition status_line :: "(string \<Rightarrow> string option) \<Rightarrow> string \<Rightarrow> 'f Process \<times> string \<Rightarrow> 'f Process \<times> string" where
  "status_line users line pc = (case pc of (p, comm) \<Rightarrow>
     if HasPrefix line ''Uid:'' then (p\<lparr>p_User := resolveUser users (firstField (drop 4 line))\<rparr>, comm)
     else if HasPrefix line ''VmSize:'' then (p\<lparr>p_VSZKB := parseFirstUint (drop 7 line)\<rparr>, comm)
     else if HasPrefix line ''VmRSS:'' then (p\<lparr>p_RSSKB := parseFirstUint (drop 6 line)\<rparr>, comm)
     else if HasPrefix line ''Name:'' then
       (p, if TrimSpace (drop 5 line) \<noteq> [] then TrimSpace (drop 5 line) else comm)
     else (p, comm))"

definition cmdline_of :: "string \<Rightarrow> errno + string \<Rightarrow> string" where
  "cmdline_of comm raw = (case raw of
       Inr b \<Rightarrow> if b \<noteq> [] then Join (Split (TrimRight b [NUL]) NUL) '' '' else ''['' @ comm @ '']''
     | Inl _ \<Rightarrow> ''['' @ comm @ '']'')"

definition derived :: "'f float64 \<Rightarrow> 'f systemInfo \<Rightarrow> statFields \<Rightarrow> 'f Process \<Rightarrow> 'f Process" where
  "derived fl sys st p =
     (let startSec = fl_div fl (fl_uint fl (st_starttime st)) (fl_uint fl clkTck);
          elapsed = fl_sub fl (uptimeSec sys) startSec;
          totalSec = fl_div fl (fl_uint fl (st_utime st + st_stime st)) (fl_uint fl clkTck)
      in p\<lparr>p_MemPercent := (if 0 < memTotalKB sys
               then fl_div fl (fl_mul fl (fl_int fl 100) (fl_uint fl (p_RSSKB p))) (fl_uint fl (memTotalKB sys)) else p_MemPercent p),
           p_CPUPercent := (if fl_positive fl elapsed then fl_div fl (fl_mul fl (fl_int fl 100) totalSec) elapsed else p_CPUPercent p),
           p_StartTimeMS := (if 0 < btimeSec sys
               then fl_trunc fl (fl_mul fl (fl_add fl (fl_int fl (btimeSec sys)) startSec) (fl_int fl 1000)) else p_StartTimeMS p)\<rparr>)"

definition new_process :: "'f float64 \<Rightarrow> int \<Rightarrow> statFields \<Rightarrow> 'f Process" where
  "new_process fl pid st = \<lparr>p_PID = of_int pid, p_PPID = st_ppid st, p_User = [], p_State = st_state st,
     p_CPUPercent = fl_int fl 0, p_MemPercent = fl_int fl 0, p_VSZKB = 0, p_RSSKB = 0, p_TTY = ''?'', p_StartTimeMS = 0, p_Command = []\<rparr>"

definition readProcess :: "'f float64 \<Rightarrow> (string \<Rightarrow> string option) \<Rightarrow> string \<Rightarrow> int \<Rightarrow> 'f systemInfo \<Rightarrow> os \<Rightarrow> 'f Process option \<times> os" where
  "readProcess fl users root pid sys s =
     (let dir = filepath_Join [root, Itoa pid] in
      case os_ReadFile (filepath_Join [dir, ''stat'']) s of
        (Inl _, s1) \<Rightarrow> (None, s1)
      | (Inr raw, s1) \<Rightarrow> (case parseStat raw of
          None \<Rightarrow> (None, s1)
        | Some st \<Rightarrow>
            let (status, s2) = os_ReadFile (filepath_Join [dir, ''status'']) s1;
                (p, comm) = (case status of
                  Inr b \<Rightarrow> fold (status_line users) (Split b LF) (new_process fl pid st, st_comm st)
                | Inl _ \<Rightarrow> (new_process fl pid st, st_comm st));
                (cmdline, s3) = os_ReadFile (filepath_Join [dir, ''cmdline'']) s2
            in (Some (derived fl sys st (p\<lparr>p_Command := cmdline_of comm cmdline\<rparr>)), s3)))"

section \<open>The table\<close>

fun read_entries :: "'f float64 \<Rightarrow> (string \<Rightarrow> string option) \<Rightarrow> string \<Rightarrow> 'f systemInfo \<Rightarrow> (string \<times> node) list \<Rightarrow> os \<Rightarrow>
    'f Process list \<times> os" where
  "read_entries fl users root sys [] s = ([], s)"
| "read_entries fl users root sys ((name, n) # es) s =
     (if \<not> is_dir n then read_entries fl users root sys es s
      else case Atoi name of
        None \<Rightarrow> read_entries fl users root sys es s
      | Some pid \<Rightarrow> (case readProcess fl users root pid sys s of
          (None, s1) \<Rightarrow> read_entries fl users root sys es s1
        | (Some p, s1) \<Rightarrow> (case read_entries fl users root sys es s1 of (ps, s2) \<Rightarrow> (p # ps, s2))))"

definition listFrom :: "'f float64 \<Rightarrow> (string \<Rightarrow> string option) \<Rightarrow> string \<Rightarrow> os \<Rightarrow> (errno + 'f Process list) \<times> os" where
  "listFrom fl users root s = (case os_ReadDir root s of
       (Inl e, s1) \<Rightarrow> (Inl e, s1)
     | (Inr entries, s1) \<Rightarrow> (case readSystem fl root s1 of
         (sys, s2) \<Rightarrow> (case read_entries fl users root sys entries s2 of (ps, s3) \<Rightarrow> (Inr ps, s3))))"

definition procps_List :: "'f float64 \<Rightarrow> (string \<Rightarrow> string option) \<Rightarrow> os \<Rightarrow> (errno + 'f Process list) \<times> os" where
  "procps_List fl users = listFrom fl users ''/proc''"

section \<open>The service\<close>

record 'f pb_Process =
  pb_Pid :: i32
  pb_Ppid :: i32
  pb_User :: string
  pb_State :: string
  pb_CpuPercent :: 'f
  pb_MemPercent :: 'f
  pb_VszKb :: u64
  pb_RssKb :: u64
  pb_Tty :: string
  pb_StartTimeMs :: int
  pb_Command :: string

definition pb_of :: "'f Process \<Rightarrow> 'f pb_Process" where
  "pb_of p = \<lparr>pb_Pid = p_PID p, pb_Ppid = p_PPID p, pb_User = p_User p, pb_State = p_State p, pb_CpuPercent = p_CPUPercent p,
     pb_MemPercent = p_MemPercent p, pb_VszKb = p_VSZKB p, pb_RssKb = p_RSSKB p, pb_Tty = p_TTY p, pb_StartTimeMs = p_StartTimeMS p,
     pb_Command = p_Command p\<rparr>"

definition ListProcesses :: "(os \<Rightarrow> (errno + 'f Process list) \<times> os) \<Rightarrow> os \<Rightarrow> (errno + 'f pb_Process list) \<times> os" where
  "ListProcesses list_fn s = (case list_fn s of (Inl e, s1) \<Rightarrow> (Inl e, s1) | (Inr procs, s1) \<Rightarrow> (Inr (map pb_of procs), s1))"

section \<open>Lemmas\<close>

text \<open>ASCII text without white space is one field.\<close>

definition graphic :: "string \<Rightarrow> bool" where
  "graphic t \<longleftrightarrow> t \<noteq> [] \<and> (\<forall>c \<in> set t. 33 \<le> (of_char c :: nat) \<and> (of_char c :: nat) \<le> 126)"

lemma runes_ascii: "(of_char c :: nat) < 0x80 \<Longrightarrow> runes (c # s) = (of_char c, [c]) # runes s"
  by (simp add: runes.simps [of "c # s"] DecodeRune_def)

lemma IsSpace_graphic: "33 \<le> n \<Longrightarrow> n \<le> 126 \<Longrightarrow> \<not> IsSpace n"
  by (simp add: IsSpace_def)

lemma fields_aux_graphic:
  "\<forall>c \<in> set t. 33 \<le> (of_char c :: nat) \<and> (of_char c :: nat) \<le> 126 \<Longrightarrow> fields_aux (runes (t @ s)) cur = fields_aux (runes s) (cur @ t)"
proof (induction t arbitrary: cur)
  case (Cons c t)
  have "33 \<le> (of_char c :: nat)" "(of_char c :: nat) \<le> 126" using Cons.prems by auto
  then have "runes (c # t @ s) = (of_char c, [c]) # runes (t @ s)" "\<not> IsSpace (of_char c)"
    by (simp_all add: runes_ascii IsSpace_graphic)
  with Cons.IH [of "cur @ [c]"] Cons.prems show ?case by simp
qed simp

lemma runes_space_char: "runes (CHR '' '' # s) = (32, '' '') # runes s"
  by (simp add: runes_ascii)

lemma IsSpace_32: "IsSpace 32"
  by (simp add: IsSpace_def)

lemma Fields_Join: "list_all graphic fs \<Longrightarrow> Fields (Join fs '' '') = fs"
proof (induction fs "'' ''" rule: Join.induct)
  case 1
  show ?case by (simp add: Fields_def runes.simps [of "[]"])
next
  case (2 s)
  then show ?case using fields_aux_graphic [of s "[]" "[]"] by (simp add: Fields_def graphic_def runes.simps [of "[]"])
next
  case (3 s t ss)
  have "Fields (s @ '' '' @ Join (t # ss) '' '') = s # Fields (Join (t # ss) '' '')"
    using fields_aux_graphic [of s "CHR '' '' # Join (t # ss) '' ''" "[]"] 3(2)
    by (simp add: Fields_def graphic_def runes_space_char IsSpace_32)
  with 3 show ?case by simp
qed

lemma Fields_space: "Fields (CHR '' '' # s) = Fields s"
  by (simp add: Fields_def runes_space_char IsSpace_32)

text \<open>The brackets around the name of a process.\<close>

lemma IndexByte_append: "c \<notin> set a \<Longrightarrow> IndexByte (a @ c # b) c = Some (length a)"
  by (induction a) auto

lemma LastIndexByte_None: "c \<notin> set b \<Longrightarrow> LastIndexByte b c = None"
  by (induction b) auto

lemma LastIndexByte_append: "c \<notin> set b \<Longrightarrow> LastIndexByte (a @ c # b) c = Some (length a)"
  by (induction a) (auto simp: LastIndexByte_None)

text \<open>Decimal numbers.\<close>

lemma show_nat_digits: "\<forall>c \<in> set (show_nat n). is_digit c"
proof (induction n rule: show_nat.induct)
  case (1 n)
  have d: "is_digit (char_of (48 + m))" if "m < 10" for m :: nat using that by (simp add: is_digit_def)
  show ?case
  proof (cases "n < 10")
    case True
    with d show ?thesis by (subst show_nat.simps) simp
  next
    case False
    with 1 d show ?thesis by (subst show_nat.simps) simp
  qed
qed

lemma show_nat_nonempty: "show_nat n \<noteq> []"
  by (subst show_nat.simps) simp

lemma parse_uint_loop_append:
  "parse_uint_loop m a xs = (v, None) \<Longrightarrow> parse_uint_loop m a (xs @ ys) = parse_uint_loop m v ys"
  by (induction xs arbitrary: a) (auto split: if_splits)

lemma digit_val_show: "n < 10 \<Longrightarrow> digit_val (char_of (48 + n)) = int n"
  by (simp add: digit_val_def of_char_int)

lemma parse_show_nat: "int n \<le> m \<Longrightarrow> parse_uint_loop m 0 (show_nat n) = (int n, None)"
proof (induction n rule: show_nat.induct)
  case (1 n)
  have d: "is_digit (char_of (48 + k))" if "k < 10" for k :: nat using that by (simp add: is_digit_def)
  show ?case
  proof (cases "n < 10")
    case True
    with d [of n] 1(2) digit_val_show [of n] show ?thesis by (subst show_nat.simps) simp
  next
    case False
    have le: "int (n div 10) \<le> m" using 1(2) by linarith
    have split: "10 * int (n div 10) + int (n mod 10) = int n" by presburger
    have "parse_uint_loop m 0 (show_nat n) = parse_uint_loop m (int (n div 10)) [char_of (48 + n mod 10)]"
      using False parse_uint_loop_append [OF 1(1) [OF False le]] by (subst show_nat.simps) simp
    also have "\<dots> = (int n, None)"
      using d [of "n mod 10"] digit_val_show [of "n mod 10"] split 1(2) by simp
    finally show ?thesis .
  qed
qed

lemma ParseUint_Itoa: "0 \<le> i \<Longrightarrow> i < 2 ^ bits \<Longrightarrow> ParseUint (Itoa i) bits = (i, None)"
  using parse_show_nat [of "nat i" "2 ^ bits - 1"] by (simp add: ParseUint_def Itoa_def show_nat_nonempty)

lemma parseUint_Itoa: "parseUint (Itoa (uint w)) = w"
  using uint_lt2p [of w] by (simp add: parseUint_def ParseUint_Itoa)

lemma ParseInt_Itoa:
  assumes "0 \<le> i" and "i < 2 ^ 31"
  shows "ParseInt (Itoa i) 32 = (i, None)"
proof -
  have "is_digit (hd (Itoa i))" using assms(1) show_nat_digits [of "nat i"] show_nat_nonempty [of "nat i"] by (simp add: Itoa_def)
  then have "hd (Itoa i) \<noteq> CHR ''-''" "hd (Itoa i) \<noteq> CHR ''+''" by (auto simp: is_digit_def)
  moreover have "ParseUint (Itoa i) 32 = (i, None)" using assms by (intro ParseUint_Itoa) simp_all
  ultimately show ?thesis using assms by (simp add: ParseInt_def Let_def)
qed

lemma Itoa_digits: "0 \<le> i \<Longrightarrow> \<forall>c \<in> set (Itoa i). is_digit c"
  using show_nat_digits by (simp add: Itoa_def)

lemma graphic_Itoa: "0 \<le> i \<Longrightarrow> graphic (Itoa i)"
  using Itoa_digits [of i] by (force simp: graphic_def is_digit_def Itoa_def show_nat_nonempty)

lemma Itoa_no_bracket: "0 \<le> i \<Longrightarrow> c \<in> {CHR ''('', CHR '')''} \<Longrightarrow> c \<notin> set (Itoa i)"
  using Itoa_digits [of i] by (force simp: is_digit_def)

text \<open>The line the kernel prints for a process: the name in brackets, then the fields.\<close>

definition stat_text :: "int \<Rightarrow> string \<Rightarrow> string list \<Rightarrow> string" where
  "stat_text pid comm fs = Itoa pid @ '' ('' @ comm @ '') '' @ Join fs '' ''"

lemma Join_chars: "c \<in> set (Join fs sep) \<Longrightarrow> c \<in> set sep \<or> (\<exists>f \<in> set fs. c \<in> set f)"
  by (induction fs sep rule: Join.induct) auto

lemma after_brackets: "drop (Suc (length pre + Suc (length comm))) (pre @ x # comm @ y # post) = post"
  by simp

lemma between_brackets:
  "take (length pre + Suc (length comm) - Suc (length pre)) (drop (Suc (length pre)) (pre @ x # comm @ y # post)) = comm"
  by simp

lemma parseStat_text:
  assumes "0 \<le> pid" and "list_all graphic fs" and "\<forall>f \<in> set fs. CHR '')'' \<notin> set f" and "20 \<le> length fs"
  shows "parseStat (stat_text pid comm fs) = Some \<lparr>st_comm = comm, st_state = fs ! 0,
    st_ppid = (case ParseInt (fs ! 1) 32 of (v, None) \<Rightarrow> of_int v | (_, Some _) \<Rightarrow> 0),
    st_utime = parseUint (fs ! 11), st_stime = parseUint (fs ! 12), st_starttime = parseUint (fs ! 19)\<rparr>"
proof -
  let ?pre = "Itoa pid @ '' ''" and ?post = "CHR '' '' # Join fs '' ''"
  let ?s = "?pre @ CHR ''('' # comm @ CHR '')'' # ?post"
  have s: "stat_text pid comm fs = ?s" by (simp add: stat_text_def)
  have "CHR ''('' \<notin> set ?pre" using Itoa_no_bracket [OF assms(1)] by simp
  then have o: "IndexByte ?s CHR ''('' = Some (length ?pre)" by (rule IndexByte_append)
  have "CHR '')'' \<notin> set ?post" using assms(3) Join_chars [of "CHR '')''" fs "'' ''"] by auto
  then have c: "LastIndexByte ?s CHR '')'' = Some (length ?pre + Suc (length comm))"
    using LastIndexByte_append [of "CHR '')''" ?post "?pre @ CHR ''('' # comm"] by simp
  have rest: "drop (Suc (length ?pre + Suc (length comm))) ?s = ?post" by (rule after_brackets)
  have f: "Fields ?post = fs" by (simp only: Fields_space Fields_Join [OF assms(2)])
  have m: "take (length ?pre + Suc (length comm) - Suc (length ?pre)) (drop (Suc (length ?pre)) ?s) = comm" by (rule between_brackets)
  show ?thesis unfolding s parseStat_def o c prod.case option.case Let_def rest f m using assms(4) by simp
qed

text \<open>The rows of a table.\<close>

lemma status_lines_PID: "p_PID (fst (fold (status_line users) ls pc)) = p_PID (fst pc)"
proof (induction ls arbitrary: pc)
  case (Cons l ls)
  have "p_PID (fst (status_line users l pc)) = p_PID (fst pc)" by (cases pc) (simp add: status_line_def)
  with Cons.IH [of "status_line users l pc"] show ?case by simp
qed simp

lemma derived_PID: "p_PID (derived fl sys st p) = p_PID p"
  by (simp add: derived_def Let_def)

lemma readProcess_PID:
  assumes "readProcess fl users root pid sys s = (Some p, s')"
  shows "p_PID p = of_int pid"
proof -
  have new: "p_PID (new_process fl pid st) = of_int pid" for st by (simp add: new_process_def)
  have lines: "p_PID q = of_int pid" if "fold (status_line users) ls (new_process fl pid st, st_comm st) = (q, c)" for ls st q c
    using status_lines_PID [of users ls "(new_process fl pid st, st_comm st)"] that new [of st] by simp
  show ?thesis
    using assms by (auto simp: readProcess_def Let_def derived_PID new dest: lines split: prod.splits sum.splits option.splits)
qed

text \<open>The process ids among the entries of a directory.\<close>

definition entry_pids :: "(string \<times> node) list \<Rightarrow> i32 list" where
  "entry_pids es = map (\<lambda>e. of_int (the (Atoi (fst e)))) (filter (\<lambda>e. is_dir (snd e) \<and> Atoi (fst e) \<noteq> None) es)"

lemma read_entries_PIDs: "subseq (map p_PID (fst (read_entries fl users root sys es s))) (entry_pids es)"
proof (induction es arbitrary: s)
  case (Cons e es)
  obtain name n where e: "e = (name, n)" by force
  show ?case
  proof (cases "is_dir n \<and> Atoi name \<noteq> None")
    case False
    with Cons.IH [of s] e show ?thesis by (auto simp: entry_pids_def)
  next
    case True
    then obtain pid where pid: "Atoi name = Some pid" by blast
    have es: "entry_pids (e # es) = of_int pid # entry_pids es" using True pid e by (simp add: entry_pids_def)
    obtain r s1 where r: "readProcess fl users root pid sys s = (r, s1)" by force
    obtain ps s2 where ps: "read_entries fl users root sys es s1 = (ps, s2)" by force
    show ?thesis
    proof (cases r)
      case None
      with r ps e True pid Cons.IH [of s1] show ?thesis unfolding es by (simp add: list_emb_Cons)
    next
      case (Some p)
      with r ps e True pid Cons.IH [of s1] readProcess_PID [of fl users root pid sys s p s1] show ?thesis unfolding es by simp
    qed
  qed
qed simp

section \<open>Properties\<close>

text \<open>C17: \<open>parseStat\<close> reads back what the kernel prints, whatever the name of the process is: brackets, spaces
  and line breaks in it, or text made up to look like further fields, change no field.\<close>

theorem parseStat_roundtrip:
  assumes "0 \<le> pid" and "0 \<le> ppid" "ppid < 2 ^ 31" and "length xs = 9" "length ys = 6"
    and "list_all graphic (state # xs @ ys @ zs)" and "\<forall>f \<in> set (state # xs @ ys @ zs). CHR '')'' \<notin> set f"
  shows "parseStat (stat_text pid comm
      ([state, Itoa ppid] @ xs @ [Itoa (uint utime), Itoa (uint stime)] @ ys @ [Itoa (uint start)] @ zs)) =
    Some \<lparr>st_comm = comm, st_state = state, st_ppid = of_int ppid, st_utime = utime, st_stime = stime, st_starttime = start\<rparr>"
proof -
  let ?fs = "[state, Itoa ppid] @ xs @ [Itoa (uint utime), Itoa (uint stime)] @ ys @ [Itoa (uint start)] @ zs"
  have g: "list_all graphic ?fs" using assms(2,6) by (simp add: graphic_Itoa)
  have b: "\<forall>f \<in> set ?fs. CHR '')'' \<notin> set f" using assms(2,7) by (auto simp: Itoa_no_bracket)
  have l: "20 \<le> length ?fs" using assms(4,5) by simp
  have n: "?fs ! 0 = state" "?fs ! 1 = Itoa ppid" "?fs ! 11 = Itoa (uint utime)" "?fs ! 12 = Itoa (uint stime)" "?fs ! 19 = Itoa (uint start)"
    using assms(4,5) by (simp_all add: nth_append nth_Cons')
  show ?thesis unfolding parseStat_text [OF assms(1) g b l] n using ParseInt_Itoa [OF assms(2,3)] by (simp add: parseUint_Itoa)
qed

text \<open>A process that has named itself after another one's line.\<close>

theorem parseStat_roundtrip_witness:
  "\<exists>fs. map_option st_ppid (parseStat (stat_text 42 '') R 1 ('' fs)) = Some 7 \<and>
     map_option st_comm (parseStat (stat_text 42 '') R 1 ('' fs)) = Some '') R 1 (''"
proof -
  let ?fs = "[''S'', Itoa 7] @ replicate 9 ''0'' @ [Itoa (uint (5 :: u64)), Itoa (uint (6 :: u64))] @ replicate 6 ''0'' @ [Itoa (uint (9 :: u64))] @ []"
  have "graphic ''S''" "graphic ''0''" by (simp_all add: graphic_def)
  then have a: "parseStat (stat_text 42 '') R 1 ('' ?fs) =
    Some \<lparr>st_comm = '') R 1 ('', st_state = ''S'', st_ppid = of_int 7, st_utime = 5, st_stime = 6, st_starttime = 9\<rparr>"
    by (intro parseStat_roundtrip) (simp_all add: list_all_iff)
  show ?thesis by (rule exI [of _ ?fs], unfold a) simp
qed

text \<open>Once the directory has been read the table is returned whatever fails after that: a process that is
  gone or unreadable costs its own row only, and the rows are those of process directories, in the
  order of the directory.\<close>

theorem table_survives_vanishing:
  assumes "os_ReadDir ''/proc'' s = (Inr entries, s1)"
  shows "\<exists>rows s'. ListProcesses (procps_List fl users) s = (Inr rows, s') \<and> subseq (map pb_Pid rows) (entry_pids entries)"
proof -
  obtain sys s2 where sys: "readSystem fl ''/proc'' s1 = (sys, s2)" by force
  obtain ps s3 where ps: "read_entries fl users ''/proc'' sys entries s2 = (ps, s3)" by force
  have "ListProcesses (procps_List fl users) s = (Inr (map pb_of ps), s3)"
    by (simp add: ListProcesses_def procps_List_def listFrom_def assms sys ps)
  moreover have "subseq (map pb_Pid (map pb_of ps)) (entry_pids entries)"
    using read_entries_PIDs [of fl users "''/proc''" sys entries s2] ps by (simp add: pb_of_def comp_def)
  ultimately show ?thesis by blast
qed

text \<open>A process directory without files in it.\<close>

definition os_proc :: os where
  "os_proc = os_demo\<lparr>os_tree := [([], Directory root_attr), ([''proc''], Directory root_attr), ([''proc'', ''7''], Directory root_attr)]\<rparr>"

definition float_demo :: "int float64" where
  "float_demo = \<lparr>fl_uint = uint, fl_int = id, fl_add = (+), fl_sub = (-), fl_mul = (*), fl_div = (div), fl_positive = (\<lambda>x. 0 < x),
     fl_trunc = id, ParseFloat = (\<lambda>_. 0)\<rparr>"

lemma os_proc_ReadDir: "\<exists>entries s1. os_ReadDir ''/proc'' os_proc = (Inr entries, s1)"
proof -
  have "kpath ''/proc'' = Inr [''proc'']" by code_simp
  then show ?thesis by (simp add: os_ReadDir_def resolve_def fault_of_def os_proc_def os_demo_def is_dir_def)
qed

theorem table_survives_vanishing_witness:
  "\<exists>entries rows s'. fst (os_ReadDir ''/proc'' os_proc) = Inr entries \<and>
     ListProcesses (procps_List float_demo (\<lambda>_. None)) os_proc = (Inr rows, s') \<and> subseq (map pb_Pid rows) (entry_pids entries)"
  using os_proc_ReadDir table_survives_vanishing [of os_proc _ _ float_demo "\<lambda>_. None"] by fastforce

end
