(* ===== verification/Control.thy ===== *)
theory Control
  imports Guestplane Containers Execsession
begin

text \<open>
  \<open>newGuestplaneDispatcher\<close> of \<open>main.go\<close>: the callbacks that turn the host's control requests into messages on
  the event bus, for the subjects \<open>pkg/containers\<close> and \<open>pkg/execsession\<close> listen on.
\<close>

section \<open>The bus\<close>

text \<open>\<open>bw_fail\<close> is the error of the \<open>n\<close>-th publish and \<open>bw_now\<close> the clock at it, in nanoseconds.\<close>

record bus_world =
  bw_sent :: "(string \<times> string) list"
  bw_tries :: nat
  bw_fail :: "nat \<Rightarrow> string err"
  bw_now :: "nat \<Rightarrow> int"

definition nc_Publish :: "string \<Rightarrow> string \<Rightarrow> bus_world callback" where
  "nc_Publish subj data w = (case bw_fail w (bw_tries w) of
       Some e \<Rightarrow> (Some e, w\<lparr>bw_tries := Suc (bw_tries w)\<rparr>)
     | None \<Rightarrow> (None, w\<lparr>bw_tries := Suc (bw_tries w), bw_sent := bw_sent w @ [(subj, data)]\<rparr>))"

section \<open>Payloads\<close>

definition stop_set :: ContainerSet where
  "stop_set = \<lparr>cs_Version = ContainerSetVersion, cs_Containers = []\<rparr>"

definition update_set :: "UpdateContainer \<Rightarrow> ContainerSet" where
  "update_set u = \<lparr>cs_Version = ContainerSetVersion,
     cs_Containers = [WorkloadContainer_zero\<lparr>wc_Name := u_ContainerId u, wc_Command := u_Command u, wc_Env := u_Env u\<rparr>]\<rparr>"

definition enc_kill :: "string \<Rightarrow> string \<Rightarrow> json" where
  "enc_kill ctr sig = JObj [(''container_id'', JStr ctr), (''signal'', JStr sig)]"

definition exec_request :: "ExecInContainer \<Rightarrow> int \<Rightarrow> ExecRequest" where
  "exec_request e now = ExecRequest_zero\<lparr>er_ID := ''gplane-'' @ Itoa now,
     er_Target := ExecTarget_zero\<lparr>et_Kind := ''exec'', et_Container := e_ContainerId e, et_Command := e_Command e, et_Env := e_Env e\<rparr>\<rparr>"

definition enc_ExecTarget :: "ExecTarget \<Rightarrow> json" where
  "enc_ExecTarget t = JObj
     ([(''kind'', JStr (et_Kind t))]
      @ omitempty (et_Container t = []) ''container'' (JStr (et_Container t))
      @ omitempty (et_Command t = []) ''command'' (enc_strings (et_Command t))
      @ omitempty (et_Args t = []) ''args'' (enc_strings (et_Args t))
      @ omitempty (et_Env t = []) ''env'' (enc_map (et_Env t))
      @ omitempty (et_WorkDir t = []) ''work_dir'' (JStr (et_WorkDir t)))"

definition enc_ExecRequest :: "ExecRequest \<Rightarrow> json" where
  "enc_ExecRequest r = JObj
     ([(''id'', JStr (er_ID r)), (''target'', enc_ExecTarget (er_Target r))]
      @ omitempty (er_InitialCols r = 0) ''cols'' (JNum (Itoa (uint (er_InitialCols r))))
      @ omitempty (er_InitialRows r = 0) ''rows'' (JNum (Itoa (uint (er_InitialRows r)))))"

section \<open>The dispatcher\<close>

definition gp_StopPod :: "string \<Rightarrow> u32 \<Rightarrow> bus_world callback" where
  "gp_StopPod vmID grace w = nc_Publish (Subject vmID) (json_print (enc_ContainerSet stop_set)) w"

definition gp_Kill :: "string \<Rightarrow> string \<Rightarrow> string \<Rightarrow> bus_world callback" where
  "gp_Kill vmID ctr sig w = nc_Publish (Subject vmID @ ''.kill'') (json_print (enc_kill ctr sig)) w"

definition gp_Exec :: "string \<Rightarrow> ExecInContainer \<Rightarrow> bus_world callback" where
  "gp_Exec vmID e w = nc_Publish (SubjectOpen vmID) (json_print (enc_ExecRequest (exec_request e (bw_now w (bw_tries w))))) w"

definition gp_Update :: "string \<Rightarrow> UpdateContainer \<Rightarrow> bus_world callback" where
  "gp_Update vmID u w = nc_Publish (Subject vmID) (json_print (enc_ContainerSet (update_set u))) w"

definition newGuestplaneDispatcher :: "string \<Rightarrow> bus_world Dispatcher" where
  "newGuestplaneDispatcher vmID = \<lparr>d_StopPod = Some (gp_StopPod vmID), d_Kill = Some (gp_Kill vmID),
     d_Exec = Some (gp_Exec vmID), d_Update = Some (gp_Update vmID)\<rparr>"

section \<open>Lemmas\<close>

lemma stop_payload: "Unmarshal dec_ContainerSet ContainerSet_zero (json_print (enc_ContainerSet stop_set)) = Some stop_set"
  by code_simp

lemma stop_set_valid: "ContainerSet_Validate stop_set = (None, stop_set)"
  by (simp add: ContainerSet_Validate_def stop_set_def ContainerSetVersion_def)

lemma update_set_invalid: "fst (ContainerSet_Validate (update_set u)) = Some (if u_ContainerId u = [] then NameRequired 0 else ImageRequired 0 (u_ContainerId u))"
  by (simp add: ContainerSet_Validate_def update_set_def ContainerSetVersion_def WorkloadContainer_zero_def)

lemma exec_request_valid: "ExecRequest_Validate (exec_request e now) =
  (if e_ContainerId e = [] then Some ContainerRequired else if e_Command e = [] then Some CommandRequired else None)"
  by (simp add: ExecRequest_Validate_def exec_request_def ExecRequest_zero_def ExecTarget_zero_def)

lemma dispatch_StopPod:
  assumes "cr_Op cr = OpStopPod g" and "bw_fail w (bw_tries w) = None"
  shows "dispatchControl (Some (newGuestplaneDispatcher vmID)) cr w =
    (\<lparr>resp_CallId = cr_CallId cr, resp_Error = []\<rparr>,
     w\<lparr>bw_tries := Suc (bw_tries w), bw_sent := bw_sent w @ [(Subject vmID, json_print (enc_ContainerSet stop_set))]\<rparr>)"
  using assms by (simp add: dispatchControl_def newGuestplaneDispatcher_def respond_def gp_StopPod_def nc_Publish_def)

lemma dispatch_Update:
  assumes "cr_Op cr = OpUpdate u" and "bw_fail w (bw_tries w) = None"
  shows "dispatchControl (Some (newGuestplaneDispatcher vmID)) cr w =
    (\<lparr>resp_CallId = cr_CallId cr, resp_Error = []\<rparr>,
     w\<lparr>bw_tries := Suc (bw_tries w), bw_sent := bw_sent w @ [(Subject vmID, json_print (enc_ContainerSet (update_set u)))]\<rparr>)"
  using assms by (simp add: dispatchControl_def newGuestplaneDispatcher_def respond_def gp_Update_def nc_Publish_def)

section \<open>Properties\<close>


definition bus_demo :: bus_world where
  "bus_demo = \<lparr>bw_sent = [], bw_tries = 0, bw_fail = (\<lambda>_. None), bw_now = (\<lambda>_. 0)\<rparr>"

definition stop_request :: ControlRequest where
  "stop_request = \<lparr>cr_CallId = 9, cr_Op = OpStopPod 5\<rparr>"

lemma stub_stop: "\<exists>s'. HandleMessage (Stub []) [''web''] (json_print (enc_ContainerSet stop_set))
    \<lparr>rc_desired = [''web'' \<mapsto> c]\<rparr> (NewStubRuntime\<lparr>sr_Started := [''web'' \<mapsto> c]\<rparr>) = (None, NewReconciler, s')"
  by (simp add: HandleMessage_def stop_payload Apply_def stop_set_valid Let_def)
    (simp add: stop_set_def next_of_def stub_defs record_error_def NewReconciler_def)


text \<open>C30: a request to update a container is answered without error, but the set it publishes has no image, so
  the container reconciler refuses it and changes nothing, whatever the request is.\<close>

theorem update_is_always_refused:
  assumes "cr_Op cr = OpUpdate u" and "bw_fail w (bw_tries w) = None"
  shows "\<exists>w'. dispatchControl (Some (newGuestplaneDispatcher vmID)) cr w = (\<lparr>resp_CallId = cr_CallId cr, resp_Error = []\<rparr>, w') \<and>
    bw_sent w' = bw_sent w @ [(Subject vmID, json_print (enc_ContainerSet (update_set u)))] \<and>
    (\<exists>e. Apply rt ord (update_set u) r s = (Some (InvalidSet e), r, s))"
proof -
  obtain cs e where "ContainerSet_Validate (update_set u) = (Some e, cs)"
    using update_set_invalid [of u] by (metis prod.collapse)
  then have "Apply rt ord (update_set u) r s = (Some (InvalidSet e), r, s)" by (simp add: Apply_def)
  with dispatch_Update [OF assms, of vmID] show ?thesis by simp
qed

theorem update_is_always_refused_witness:
  "\<exists>w' e. dispatchControl (Some (newGuestplaneDispatcher ''vm''))
       \<lparr>cr_CallId = 3, cr_Op = OpUpdate \<lparr>u_ContainerId = ''web'', u_Command = [''sh''], u_Env = []\<rparr>\<rparr> bus_demo =
       (\<lparr>resp_CallId = 3, resp_Error = []\<rparr>, w') \<and>
     Apply (Stub []) [] (update_set \<lparr>u_ContainerId = ''web'', u_Command = [''sh''], u_Env = []\<rparr>) NewReconciler NewStubRuntime =
       (Some (InvalidSet e), NewReconciler, NewStubRuntime)"
  using update_is_always_refused [of "\<lparr>cr_CallId = 3, cr_Op = OpUpdate \<lparr>u_ContainerId = ''web'', u_Command = [''sh''], u_Env = []\<rparr>\<rparr>"
      "\<lparr>u_ContainerId = ''web'', u_Command = [''sh''], u_Env = []\<rparr>" bus_demo "''vm''" "Stub []" "[]" NewReconciler NewStubRuntime]
  by (simp add: bus_demo_def) blast

end
