(* ===== verification/Agent.thy ===== *)
theory Agent
  imports Sshd Execsession Boot Guestplane Network Shares Control
begin

text \<open>
  \<open>main.go\<close>: how the agent is put together.  The apply functions the subscribers are given, the
  functions that start each part, the setup of \<open>run\<close> in its order, and the shutdown goroutine.  The
  event bus, the listeners and the clock are parameters (\<open>agent_env\<close>).
\<close>

section \<open>Options\<close>

record opts =
  o_listenAddr :: string
  o_meshVMID :: string
  o_mountsVMID :: string
  o_firewallVMID :: string
  o_firewallStatusEvery :: int
  o_sshKeysVMID :: string
  o_sshKeysAuthorizedKeys :: string
  o_sshKeysUID :: int
  o_sshKeysGID :: int
  o_propsVMID :: string
  o_propsDir :: string
  o_sshdListen :: string
  o_sshdHostKey :: string
  o_sshdShell :: string
  o_bootWatch :: bool
  o_bootWorkDir :: string
  o_bootSentinel :: string
  o_shareMounts :: string
  o_execVMID :: string
  o_containersVMID :: string
  o_natsURL :: string
  o_natsCreds :: string
  o_metricsAddr :: string
  o_guestPlanePodID :: string
  o_guestPlanePort :: u32
  o_guestPlaneHostCID :: u32
  o_guestPlaneInterval :: int

text \<open>The defaults of the flags.\<close>

definition flag_defaults :: opts where
  "flag_defaults = \<lparr>o_listenAddr = ''0.0.0.0:51999'', o_meshVMID = [], o_mountsVMID = [], o_firewallVMID = [],
     o_firewallStatusEvery = 10 * go_second, o_sshKeysVMID = [], o_sshKeysAuthorizedKeys = ''/root/.ssh/authorized_keys'',
     o_sshKeysUID = 0, o_sshKeysGID = 0, o_propsVMID = [], o_propsDir = ''/run/weft/properties'', o_sshdListen = [],
     o_sshdHostKey = ''/var/lib/weft/sshd_host_ed25519'', o_sshdShell = ''/bin/sh'', o_bootWatch = False,
     o_bootWorkDir = ''/var/lib/weft/boot'', o_bootSentinel = ''/var/lib/weft/provisioned'', o_shareMounts = [], o_execVMID = [],
     o_containersVMID = [], o_natsURL = ''nats://127.0.0.1:4222'', o_natsCreds = [], o_metricsAddr = '':9101'',
     o_guestPlanePodID = [], o_guestPlanePort = DefaultPort, o_guestPlaneHostCID = 2, o_guestPlaneInterval = DefaultHeartbeatTick\<rparr>"

text \<open>The id in the subject of the log: the environment's, else the host name, else a constant.\<close>

definition log_vmID :: "string \<Rightarrow> string option \<Rightarrow> string" where
  "log_vmID uuid hostname = (if uuid \<noteq> [] then uuid else case hostname of Some h \<Rightarrow> h | None \<Rightarrow> ''unknown'')"

definition agent_path :: "string \<Rightarrow> string" where
  "agent_path old = ''/bin:/usr/bin:/sbin:'' @ old"

definition natsOptions :: "string \<Rightarrow> string list" where
  "natsOptions creds = (if creds \<noteq> [] then [creds] else [])"

text \<open>The release string of \<open>uname\<close>: the bytes up to the first zero; \<^const>\<open>None\<close> is a failed call.\<close>

definition kernelRelease :: "byte list option \<Rightarrow> string" where
  "kernelRelease u = (case u of None \<Rightarrow> [] | Some release \<Rightarrow> string_of_bytes (takeWhile (\<lambda>c. c \<noteq> 0) release))"

section \<open>Apply functions\<close>

text \<open>The wrapper around the production apply of a concern; \<open>dur\<close> is the time it took.\<close>

definition recorded :: "string \<Rightarrow> int \<Rightarrow> ('m \<Rightarrow> 's \<Rightarrow> 'e err \<times> 's) \<Rightarrow> 'm \<Rightarrow> 's \<times> Recorder option \<Rightarrow> 'e err \<times> 's \<times> Recorder option" where
  "recorded concern dur inner m st = (case inner m (fst st) of (e, s1) \<Rightarrow> (e, s1, RecordApply (snd st) concern e dur))"

text \<open>The apply of \<open>startSSHKeys\<close>: the store of the embedded server first, then the file.  A nil store is
  \<^const>\<open>None\<close>.\<close>

definition composed :: "'k ssh_lib \<Rightarrow> string \<Rightarrow> int \<Rightarrow> int \<Rightarrow> KeySet \<Rightarrow> 'k AuthStore option \<times> os \<Rightarrow>
    keys_error err \<times> 'k AuthStore option \<times> os" where
  "composed lib path uid gid ks st =
     (let store = map_option (\<lambda>s. snd (Replace lib ks s)) (fst st)
      in case sshKeysApplyer path uid gid ks (snd st) of (e, os1) \<Rightarrow> (e, store, os1))"

definition sshkeys_apply :: "'k ssh_lib \<Rightarrow> string \<Rightarrow> int \<Rightarrow> int \<Rightarrow> int \<Rightarrow> KeySet \<Rightarrow>
    ('k AuthStore option \<times> os) \<times> Recorder option \<Rightarrow> keys_error err \<times> ('k AuthStore option \<times> os) \<times> Recorder option" where
  "sshkeys_apply lib path uid gid dur = recorded ''sshkeys'' dur (composed lib path uid gid)"

section \<open>Starting the parts\<close>

record 'x agent =
  ag_rec :: "Recorder option"
  ag_next :: nat
  ag_open :: "nat list"
  ag_conns :: "nat list"
  ag_reg :: Registry
  ag_sys :: "'x sys"
  ag_sshd :: bool
  ag_tasks :: "string list"
  ag_sent :: "(string \<times> string) list"

text \<open>\<open>ae_connect\<close> is the error of the \<open>n\<close>-th dial of the bus.\<close>

record 'x agent_env =
  ae_exec :: "'x exec_env"
  ae_polls :: polls
  ae_connect :: "nat \<Rightarrow> string err"
  ae_subscribe :: "string \<Rightarrow> string err"
  ae_broker :: broker
  ae_publish :: "string \<Rightarrow> string err"
  ae_listen :: "string \<Rightarrow> string err"

datatype run_error = ShareMountsFailed boot_mounts_error | StepFailed string string | HostKeyFailed hostkey_error

definition nats_Connect :: "'x agent_env \<Rightarrow> 'x agent \<Rightarrow> (string + nat) \<times> 'x agent" where
  "nats_Connect env a = (case ae_connect env (ag_next a) of
       Some e \<Rightarrow> (Inl e, a\<lparr>ag_next := Suc (ag_next a)\<rparr>)
     | None \<Rightarrow> (Inr (ag_next a), a\<lparr>ag_next := Suc (ag_next a), ag_open := ag_next a # ag_open a\<rparr>))"

definition nc_Close :: "nat \<Rightarrow> 'x agent \<Rightarrow> 'x agent" where
  "nc_Close nc a = a\<lparr>ag_open := removeAll nc (ag_open a)\<rparr>"

definition set_connected :: "bool \<Rightarrow> 'x agent \<Rightarrow> 'x agent" where
  "set_connected b a = a\<lparr>ag_rec := SetNATSConnected (ag_rec a) b\<rparr>"

text \<open>The shape the starters share: dial, set the gauge, subscribe, and undo both if that fails.\<close>

definition start_subscriber :: "'x agent_env \<Rightarrow> string err \<Rightarrow> 'x agent \<Rightarrow> (string + nat) \<times> 'x agent" where
  "start_subscriber env sub_error a = (case nats_Connect env a of
       (Inl e, a1) \<Rightarrow> (Inl e, a1)
     | (Inr nc, a1) \<Rightarrow> (case sub_error of
         Some e \<Rightarrow> (Inl e, set_connected False (nc_Close nc (set_connected True a1)))
       | None \<Rightarrow> (Inr nc, set_connected True a1)))"

definition startMesh :: "'x agent_env \<Rightarrow> string \<Rightarrow> 'x agent \<Rightarrow> (string + nat) \<times> 'x agent" where
  "startMesh env vmID = start_subscriber env (ae_subscribe env (mesh_Subject vmID))"

definition startMounts :: "'x agent_env \<Rightarrow> string \<Rightarrow> 'x agent \<Rightarrow> (string + nat) \<times> 'x agent" where
  "startMounts env vmID = start_subscriber env (case mounts_Start (ae_broker env) vmID of Inl e \<Rightarrow> Some e | Inr _ \<Rightarrow> None)"

definition startFirewall :: "'x agent_env \<Rightarrow> string \<Rightarrow> 'x agent \<Rightarrow> (string + nat) \<times> 'x agent" where
  "startFirewall env vmID = start_subscriber env (ae_subscribe env (firewall_Subject vmID))"

definition startSSHKeys :: "'x agent_env \<Rightarrow> string \<Rightarrow> 'x agent \<Rightarrow> (string + nat) \<times> 'x agent" where
  "startSSHKeys env vmID = start_subscriber env (ae_subscribe env (sshkeys_Subject vmID))"

definition startProperties :: "'x agent_env \<Rightarrow> string \<Rightarrow> 'x agent \<Rightarrow> (string + nat) \<times> 'x agent" where
  "startProperties env vmID = start_subscriber env (ae_subscribe env (properties_Subject vmID))"

definition spawn :: "string \<Rightarrow> 'x agent \<Rightarrow> 'x agent" where
  "spawn task a = a\<lparr>ag_tasks := ag_tasks a @ [task]\<rparr>"

definition startFirewallStatus :: "'x agent_env \<Rightarrow> string \<Rightarrow> int \<Rightarrow> 'x agent \<Rightarrow> (string + nat) \<times> 'x agent" where
  "startFirewallStatus env vmID every a = (case nats_Connect env a of
       (Inl e, a1) \<Rightarrow> (Inl e, a1)
     | (Inr nc, a1) \<Rightarrow> (case Emitter_New True vmID True every of
         Inl _ \<Rightarrow> (Inl ''firewallstatus.New'', set_connected False (nc_Close nc (set_connected True a1)))
       | Inr em \<Rightarrow> (Inr nc, spawn ''firewall status'' (set_connected True a1))))"

text \<open>The message that says the agent is up; a failed publish is only logged.\<close>

definition announce_up :: "'x agent_env \<Rightarrow> string \<Rightarrow> 'x agent \<Rightarrow> 'x agent" where
  "announce_up env vmID a = (let subj = ''weft.agent.'' @ vmID @ ''.up'' in
     if ae_publish env subj = None then a\<lparr>ag_sent := ag_sent a @ [(subj, ''execsession'')]\<rparr> else a)"

definition startExecSession :: "'x agent_env \<Rightarrow> string \<Rightarrow> 'x agent \<Rightarrow> (string + nat) \<times> 'x agent" where
  "startExecSession env vmID a = (case nats_Connect env a of
       (Inl e, a1) \<Rightarrow> (Inl e, a1)
     | (Inr nc, a1) \<Rightarrow> (case ae_subscribe env (SubjectOpen vmID) of
         Some e \<Rightarrow> (Inl e, nc_Close nc a1)
       | None \<Rightarrow> (Inr nc, announce_up env vmID a1)))"

definition startSSHD :: "('p, 's) hostkey_lib \<Rightarrow> 'x agent_env \<Rightarrow> string \<Rightarrow> string \<Rightarrow> 'x agent \<Rightarrow> run_error err \<times> 'x agent" where
  "startSSHD lib env listen hostKeyPath a = (case LoadOrCreateHostKey lib hostKeyPath (sys_os (ag_sys a)) of
       (Inl e, os1) \<Rightarrow> (Some (HostKeyFailed e), a\<lparr>ag_sys := (ag_sys a)\<lparr>sys_os := os1\<rparr>\<rparr>)
     | (Inr _, os1) \<Rightarrow> (case ae_listen env listen of
         Some e \<Rightarrow> (Some (StepFailed ''sshd'' e), a\<lparr>ag_sys := (ag_sys a)\<lparr>sys_os := os1\<rparr>\<rparr>)
       | None \<Rightarrow> (None, spawn ''sshd'' (a\<lparr>ag_sys := (ag_sys a)\<lparr>sys_os := os1\<rparr>, ag_sshd := True\<rparr>))))"

section \<open>Setup\<close>

type_synonym 'x setup_step = "'x agent \<Rightarrow> run_error err \<times> 'x agent"

fun run_steps :: "'x setup_step list \<Rightarrow> 'x setup_step" where
  "run_steps [] a = (None, a)"
| "run_steps (f # fs) a = (case f a of (Some e, a1) \<Rightarrow> (Some e, a1) | (None, a1) \<Rightarrow> run_steps fs a1)"

text \<open>A part that is started if it is enabled; its connection is kept for the shutdown.\<close>

definition part :: "string \<Rightarrow> bool \<Rightarrow> ('x agent \<Rightarrow> (string + nat) \<times> 'x agent) \<Rightarrow> 'x setup_step" where
  "part name enabled start a =
     (if \<not> enabled then (None, a)
      else case start a of
        (Inl e, a1) \<Rightarrow> (Some (StepFailed name e), a1)
      | (Inr nc, a1) \<Rightarrow> (None, a1\<lparr>ag_conns := ag_conns a1 @ [nc]\<rparr>))"

definition boot_mounts_step :: "'x agent_env \<Rightarrow> opts \<Rightarrow> 'x setup_step" where
  "boot_mounts_step env o' a =
     (if o_shareMounts o' = [] then (None, a)
      else case applyBootMounts (ae_exec env) (ae_polls env) (o_shareMounts o') (ag_reg a, ag_sys a) of
        (e, r, s) \<Rightarrow> (map_option ShareMountsFailed e, a\<lparr>ag_reg := r, ag_sys := s\<rparr>))"

definition sshd_step :: "('p, 's) hostkey_lib \<Rightarrow> 'x agent_env \<Rightarrow> opts \<Rightarrow> 'x setup_step" where
  "sshd_step lib env o' a = (if o_sshdListen o' = [] then (None, a) else startSSHD lib env (o_sshdListen o') (o_sshdHostKey o') a)"

text \<open>The control stream runs with or without a dispatcher, so a failed dial is not an error.\<close>

definition guestplane_step :: "'x agent_env \<Rightarrow> opts \<Rightarrow> 'x setup_step" where
  "guestplane_step env o' a =
     (if o_guestPlanePodID o' = [] then (None, a)
      else case nats_Connect env a of
        (Inl _, a1) \<Rightarrow> (None, spawn ''guestplane'' a1)
      | (Inr dnc, a1) \<Rightarrow> (None, spawn ''guestplane'' (a1\<lparr>ag_conns := ag_conns a1 @ [dnc]\<rparr>)))"

definition boot_watch_step :: "opts \<Rightarrow> 'x setup_step" where
  "boot_watch_step o' a = (None, if o_bootWatch o' then spawn ''boot'' a else a)"

definition listen_step :: "'x agent_env \<Rightarrow> opts \<Rightarrow> 'x setup_step" where
  "listen_step env o' a = (case ae_listen env (o_listenAddr o') of Some e \<Rightarrow> (Some (StepFailed ''listen'' e), a) | None \<Rightarrow> (None, a))"

definition metrics_step :: "opts \<Rightarrow> 'x setup_step" where
  "metrics_step o' a = (None, if o_metricsAddr o' \<noteq> [] then spawn ''metrics'' a else a)"

definition setup_steps :: "('p, 's) hostkey_lib \<Rightarrow> 'x agent_env \<Rightarrow> opts \<Rightarrow> 'x setup_step list" where
  "setup_steps lib env o' =
     [boot_mounts_step env o',
      part ''mesh'' (o_meshVMID o' \<noteq> []) (startMesh env (o_meshVMID o')),
      part ''mounts'' (o_mountsVMID o' \<noteq> []) (startMounts env (o_mountsVMID o')),
      part ''firewall'' (o_firewallVMID o' \<noteq> []) (startFirewall env (o_firewallVMID o')),
      part ''firewall status'' (o_firewallVMID o' \<noteq> [] \<and> 0 < o_firewallStatusEvery o')
        (startFirewallStatus env (o_firewallVMID o') (o_firewallStatusEvery o')),
      part ''sshkeys'' (o_sshKeysVMID o' \<noteq> []) (startSSHKeys env (o_sshKeysVMID o')),
      part ''execsession'' (o_execVMID o' \<noteq> []) (startExecSession env (o_execVMID o')),
      sshd_step lib env o',
      guestplane_step env o',
      boot_watch_step o',
      part ''properties'' (o_propsVMID o' \<noteq> []) (startProperties env (o_propsVMID o')),
      listen_step env o',
      metrics_step o']"

definition new_agent :: "string \<Rightarrow> string \<Rightarrow> string \<Rightarrow> 'x sys \<Rightarrow> 'x agent" where
  "new_agent version commit date s = \<lparr>ag_rec = Some (metrics_New version commit date), ag_next = 0, ag_open = [], ag_conns = [],
     ag_reg = NewRegistry, ag_sys = s, ag_sshd = False, ag_tasks = [], ag_sent = []\<rparr>"

definition run_setup :: "('p, 's) hostkey_lib \<Rightarrow> 'x agent_env \<Rightarrow> opts \<Rightarrow> 'x setup_step" where
  "run_setup lib env o' = run_steps (setup_steps lib env o')"

section \<open>Shutdown\<close>

datatype shutdown_event = MetricsShutdown | ConnClosed nat | SshdClosed | SharesUnmounted "share_error err" | GracefulStop

definition shutdown :: "'x agent_env \<Rightarrow> opts \<Rightarrow> string list \<Rightarrow> 'x agent \<Rightarrow> shutdown_event list \<times> 'x agent" where
  "shutdown env o' ord a =
     (let a1 = fold nc_Close (ag_conns a) a
      in case UnmountAll (ae_exec env) ord (ag_reg a1, ag_sys a1) of
        (e, r, s) \<Rightarrow>
          ((if o_metricsAddr o' \<noteq> [] then [MetricsShutdown] else []) @ map ConnClosed (ag_conns a) @
             (if ag_sshd a then [SshdClosed] else []) @ [SharesUnmounted e, GracefulStop],
           a1\<lparr>ag_reg := r, ag_sys := s, ag_sshd := False\<rparr>))"

section \<open>Lemmas\<close>

text \<open>The connections that are open are the ones kept for the shutdown.\<close>

definition accounted :: "'x agent \<Rightarrow> bool" where
  "accounted a \<longleftrightarrow> set (ag_open a) = set (ag_conns a) \<and> (\<forall>n \<in> set (ag_open a). n < ag_next a)"

text \<open>What a starter does to the connections.\<close>

definition starter :: "('x agent \<Rightarrow> (string + nat) \<times> 'x agent) \<Rightarrow> bool" where
  "starter start \<longleftrightarrow> (\<forall>a. accounted a \<longrightarrow> (case start a of
     (Inl e, a1) \<Rightarrow> accounted a1
   | (Inr nc, a1) \<Rightarrow> accounted (a1\<lparr>ag_conns := ag_conns a1 @ [nc]\<rparr>)))"

definition keeps :: "'x setup_step \<Rightarrow> bool" where
  "keeps f \<longleftrightarrow> (\<forall>a. accounted a \<longrightarrow> accounted (snd (f a)))"

lemma accounted_simps [simp]:
  "accounted (set_connected b a) = accounted a" "accounted (spawn t a) = accounted a"
  "accounted (a\<lparr>ag_reg := r\<rparr>) = accounted a" "accounted (a\<lparr>ag_sys := s\<rparr>) = accounted a" "accounted (a\<lparr>ag_sshd := b\<rparr>) = accounted a"
  "accounted (announce_up env vmID a) = accounted a"
  by (simp_all add: accounted_def set_connected_def spawn_def announce_up_def Let_def)

lemma nats_Connect_cases:
  assumes "accounted a"
  obtains (refused) e a1 where "nats_Connect env a = (Inl e, a1)" "accounted a1"
  | (dialled) nc a1 where "nats_Connect env a = (Inr nc, a1)" "accounted (nc_Close nc a1)" "accounted (a1\<lparr>ag_conns := ag_conns a1 @ [nc]\<rparr>)"
proof (cases "ae_connect env (ag_next a)")
  case None
  have "ag_next a \<notin> set (ag_open a)" using assms by (auto simp: accounted_def)
  with None assms dialled show ?thesis by (auto simp: nats_Connect_def accounted_def nc_Close_def less_Suc_eq)
next
  case (Some e)
  with assms refused show ?thesis by (auto simp: nats_Connect_def accounted_def less_Suc_eq)
qed

lemma accounted_close [simp]:
  "accounted (nc_Close nc (set_connected b a)) = accounted (nc_Close nc a)"
  by (simp add: accounted_def nc_Close_def set_connected_def)

lemma accounted_keep [simp]:
  "accounted (set_connected b a\<lparr>ag_conns := ag_conns (set_connected b a) @ [nc]\<rparr>) = accounted (a\<lparr>ag_conns := ag_conns a @ [nc]\<rparr>)"
  "accounted (spawn t a\<lparr>ag_conns := ag_conns (spawn t a) @ [nc]\<rparr>) = accounted (a\<lparr>ag_conns := ag_conns a @ [nc]\<rparr>)"
  "accounted (announce_up env vmID a\<lparr>ag_conns := ag_conns (announce_up env vmID a) @ [nc]\<rparr>) = accounted (a\<lparr>ag_conns := ag_conns a @ [nc]\<rparr>)"
  by (simp_all add: accounted_def set_connected_def spawn_def announce_up_def Let_def)

lemma start_subscriber_starter: "starter (start_subscriber env err)"
  unfolding starter_def
proof (intro allI impI)
  fix a :: "'a agent"
  assume "accounted a"
  then show "case start_subscriber env err a of (Inl e, a1) \<Rightarrow> accounted a1
    | (Inr nc, a1) \<Rightarrow> accounted (a1\<lparr>ag_conns := ag_conns a1 @ [nc]\<rparr>)"
    by (cases rule: nats_Connect_cases [where env = env]; cases err) (simp_all add: start_subscriber_def)
qed

lemma startFirewallStatus_starter: "starter (startFirewallStatus env vmID every)"
  unfolding starter_def
proof (intro allI impI)
  fix a :: "'a agent"
  assume "accounted a"
  then show "case startFirewallStatus env vmID every a of (Inl e, a1) \<Rightarrow> accounted a1
    | (Inr nc, a1) \<Rightarrow> accounted (a1\<lparr>ag_conns := ag_conns a1 @ [nc]\<rparr>)"
    by (cases rule: nats_Connect_cases [where env = env]; cases "Emitter_New True vmID True every")
      (simp_all add: startFirewallStatus_def)
qed

lemma startExecSession_starter: "starter (startExecSession env vmID)"
  unfolding starter_def
proof (intro allI impI)
  fix a :: "'a agent"
  assume "accounted a"
  then show "case startExecSession env vmID a of (Inl e, a1) \<Rightarrow> accounted a1
    | (Inr nc, a1) \<Rightarrow> accounted (a1\<lparr>ag_conns := ag_conns a1 @ [nc]\<rparr>)"
    by (cases rule: nats_Connect_cases [where env = env]; cases "ae_subscribe env (SubjectOpen vmID)")
      (simp_all add: startExecSession_def)
qed

lemma part_keeps:
  assumes "starter start"
  shows "keeps (part name enabled start)"
  unfolding keeps_def
proof (intro allI impI)
  fix a :: "'a agent"
  assume a: "accounted a"
  obtain r a1 where r: "start a = (r, a1)" by force
  from assms a have "case start a of (Inl e, a1) \<Rightarrow> accounted a1 | (Inr nc, a1) \<Rightarrow> accounted (a1\<lparr>ag_conns := ag_conns a1 @ [nc]\<rparr>)"
    by (simp add: starter_def)
  with a r show "accounted (snd (part name enabled start a))" by (cases r) (simp_all add: part_def)
qed

lemma guestplane_keeps: "keeps (guestplane_step env o')"
  unfolding keeps_def
proof (intro allI impI)
  fix a :: "'a agent"
  assume a: "accounted a"
  then show "accounted (snd (guestplane_step env o' a))"
    by (cases rule: nats_Connect_cases [where env = env]) (use a in \<open>simp_all add: guestplane_step_def\<close>)
qed

lemma other_steps_keep:
  "keeps (boot_mounts_step env o')" "keeps (sshd_step lib env o')" "keeps (boot_watch_step o')"
  "keeps (listen_step env o')" "keeps (metrics_step o')"
  by (auto simp: keeps_def boot_mounts_step_def sshd_step_def startSSHD_def boot_watch_step_def listen_step_def metrics_step_def
      split: prod.splits sum.splits option.splits)

lemma run_steps_keeps: "\<forall>f \<in> set fs. keeps f \<Longrightarrow> keeps (run_steps fs)"
proof (induction fs)
  case (Cons f fs)
  show ?case unfolding keeps_def
  proof (intro allI impI)
    fix a :: "'a agent"
    assume "accounted a"
    with Cons.prems have 1: "accounted (snd (f a))" by (simp add: keeps_def)
    obtain e a1 where "f a = (e, a1)" by force
    with 1 Cons show "accounted (snd (run_steps (f # fs) a))" by (cases e) (simp_all add: keeps_def)
  qed
qed (simp add: keeps_def)

lemma run_setup_keeps: "keeps (run_setup lib env o')"
  unfolding run_setup_def
  by (rule run_steps_keeps)
    (auto simp: setup_steps_def startMesh_def startMounts_def startFirewall_def startSSHKeys_def startProperties_def
      intro: part_keeps start_subscriber_starter startFirewallStatus_starter startExecSession_starter guestplane_keeps other_steps_keep)

lemma accounted_new: "accounted (new_agent v c d s)"
  by (simp add: accounted_def new_agent_def)

lemma fold_close: "set (ag_open (fold nc_Close ncs a)) = set (ag_open a) - set ncs"
  by (induction ncs arbitrary: a) (auto simp: nc_Close_def)

lemma fold_close_frame [simp]: "ag_reg (fold nc_Close ncs a) = ag_reg a" "ag_sys (fold nc_Close ncs a) = ag_sys a"
  by (induction ncs arbitrary: a) (simp_all add: nc_Close_def)

section \<open>Properties\<close>

text \<open>C3: a published set of keys reaches both places it is for.  The embedded server authorises exactly the
  keys of the set, even if the file could not be written; the file has the set if the apply returns
  nil and is what it was if not; and the apply is counted once under its result.\<close>

theorem published_keys_reach_both:
  assumes "ssh_laws lib" and "abs_file path"
    and "sshkeys_apply lib path uid gid dur ks ((Some store, s), r) = (e, (store', s'), r')"
  shows "(\<exists>st. store' = Some st \<and> (\<forall>key. Authorize lib key st \<noteq> None \<longleftrightarrow>
      (\<exists>k \<in> set (ks_Keys ks). \<exists>pub c. ParseAuthorizedKey lib (key_PublicKey k) = Some (pub, c) \<and> Marshal lib pub = Marshal lib key))) \<and>
    (if e = None then \<exists>a. lookup s' (target_file path) = Some (Reg a (render_keys ks))
     else lookup s' (target_file path) = lookup s (target_file path)) \<and>
    r' = RecordApply r ''sshkeys'' e dur"
proof -
  have e: "e = fst (sshKeysApplyer path uid gid ks s)" and s': "s' = snd (sshKeysApplyer path uid gid ks s)"
    and st: "store' = Some (snd (Replace lib ks store))" and r': "r' = RecordApply r ''sshkeys'' e dur"
    using assms(3) by (auto simp: sshkeys_apply_def recorded_def composed_def Let_def split: prod.splits)
  show ?thesis
    using conjunct2 [OF applyer_run [OF assms(2), where uid = uid and gid = gid and ks = ks and s = s]]
      Authorize_published [OF assms(1), of _ ks store] st r' unfolding e s' by blast
qed

theorem published_keys_reach_both_witness:
  "\<exists>e st s' r'. sshkeys_apply demo_lib keys_path 0 0 5 keys_demo ((Some NewAuthStore, os_demo), None) = (e, (Some st, s'), r') \<and>
     Authorize demo_lib ''AAAA'' st \<noteq> None \<and> Authorize demo_lib ''BBBB'' st = None"
proof -
  have laws: "ssh_laws demo_lib" by (simp add: ssh_laws_def demo_lib_def)
  obtain e store' s' r' where a: "sshkeys_apply demo_lib keys_path 0 0 5 keys_demo ((Some NewAuthStore, os_demo), None) = (e, (store', s'), r')"
    by (metis prod.exhaust)
  obtain st where st: "store' = Some st" and k: "\<forall>key. Authorize demo_lib key st \<noteq> None \<longleftrightarrow>
      (\<exists>k \<in> set (ks_Keys keys_demo). \<exists>pub c. ParseAuthorizedKey demo_lib (key_PublicKey k) = Some (pub, c) \<and> Marshal demo_lib pub = Marshal demo_lib key)"
    using conjunct1 [OF published_keys_reach_both [OF laws keys_path_abs a]] by blast
  have "Authorize demo_lib ''AAAA'' st \<noteq> None" "Authorize demo_lib ''BBBB'' st = None"
    using k [rule_format, of "''AAAA''"] k [rule_format, of "''BBBB''"] by (simp_all add: keys_demo_def demo_lib_def)
  with a st show ?thesis by blast
qed

text \<open>C27: whatever dials, subscriptions, mounts and listeners fail during the setup, the connections that are
  open when it ends are exactly the ones it has registered: a part that fails closes its own, and no
  other is lost.  (On an error \<open>run\<close> returns with those still open.)\<close>

theorem connections_accounted:
  "let a = snd (run_setup lib env o' (new_agent v c d s)) in set (ag_open a) = set (ag_conns a)"
  using run_setup_keeps [of lib env o'] accounted_new [of v c d s] by (auto simp: keeps_def accounted_def Let_def)


definition agent_env_demo :: "unit agent_env" where
  "agent_env_demo = \<lparr>ae_exec = env_stuck, ae_polls = polls_demo, ae_connect = (\<lambda>_. None), ae_subscribe = (\<lambda>_. None),
     ae_broker = broker_demo, ae_publish = (\<lambda>_. None), ae_listen = (\<lambda>_. None)\<rparr>"

definition opts_demo :: opts where
  "opts_demo = flag_defaults\<lparr>o_meshVMID := ''vm'', o_mountsVMID := ''vm'', o_firewallVMID := ''vm''\<rparr>"

lemma setup_demo: "\<exists>a. run_setup demo_hostkey agent_env_demo opts_demo (new_agent ''v'' ''c'' ''d'' (snd guest_demo)) = (None, a) \<and> ag_open a = [3, 2, 1, 0]"
  by (simp add: run_setup_def setup_steps_def boot_mounts_step_def part_def sshd_step_def guestplane_step_def boot_watch_step_def
      listen_step_def metrics_step_def opts_demo_def flag_defaults_def startMesh_def startMounts_def startFirewall_def
      startFirewallStatus_def start_subscriber_def nats_Connect_def set_connected_def spawn_def agent_env_demo_def new_agent_def
      mounts_Start_def ensureStream_def broker_demo_def Emitter_New_def)


end
