(* ===== verification/Spec2Isabelle.thy ===== *)
theory Spec2Isabelle
  imports Json_Fuel Metrics Containers Sshd Shell_Pump Execsession Boot Guestplane Network Shares Subscribers Crun Procps Agent
begin

text \<open>
  Verification of \<^verbatim>\<open>weft-microvm-agent\<close>, the agent that runs inside an openweft micro-VM.

  \<^bold>\<open>The program.\<close>  The agent is one process (\<^verbatim>\<open>src/cmd/weft-microvm-agent\<close>).  Its \<open>run\<close> mounts the boot-time
  shares, starts one subscriber per concern it is told to serve, each on a connection of its own to
  the event bus, an SSH server, the control stream to the host and the watcher for first-boot
  provisioning, and then serves the process table over gRPC until a signal arrives.  Most concerns
  have the same shape (\<^verbatim>\<open>src/pkg/mesh\<close>, \<^verbatim>\<open>mounts\<close>, \<^verbatim>\<open>firewall\<close>, \<^verbatim>\<open>sshkeys\<close>, \<^verbatim>\<open>properties\<close>, \<^verbatim>\<open>containers\<close>): a message is decoded
  from JSON, validated, and handed to an apply function that makes the guest match it.

  \<^bold>\<open>The library under the components.\<close>
    \<^item> \<^verbatim>\<open>Weft_Prelude\<close>, \<^verbatim>\<open>Go_Bytes\<close>, \<^verbatim>\<open>Go_Netip\<close>: what is used of \<open>strings\<close>, \<open>strconv\<close>, \<open>utf8\<close>, \<open>filepath\<close>, \<open>net/netip\<close>; Go
      strings are byte strings, integers that can wrap are words.
    \<^item> \<^verbatim>\<open>Go_Json\<close>, \<^verbatim>\<open>Json_Fuel\<close>: \<open>encoding/json\<close>, as a parser, a printer and decoders into variables.
    \<^item> \<^verbatim>\<open>Go_FS\<close>, \<^verbatim>\<open>Go_Path\<close>: package \<open>os\<close> on a tree of files.  Every call may fail, as an oracle says, a write may
      be cut short, and the tree after every change is recorded in a history, so that a property can
      speak of what another process could have seen (\<open>evolves\<close>).
    \<^item> \<^verbatim>\<open>Go_Proc\<close>: \<open>os/exec\<close>, the line scanner, indented JSON.
    \<^item> \<^verbatim>\<open>Subscriber\<close>: the locales \<open>message_handler\<close> and \<open>replace_set\<close>, the contract of the subscribers; each
      package's \<open>HandleMessage\<close> interprets the first.  The contract of a container runtime is the locale
      \<open>runtime_contract\<close> of \<^verbatim>\<open>Containers\<close>, interpreted by the in-memory runtime.

  \<^bold>\<open>The components\<close>, one theory each, in the order of the source:
    \<^item> \<^verbatim>\<open>Metrics\<close> (\<^verbatim>\<open>internal/metrics\<close>): the recorder; the published drop total against the kernel's counter.
    \<^item> \<^verbatim>\<open>Pod\<close> (vendored \<open>pod\<close>): the message types with their decoders, encoders and \<open>Validate\<close>.
    \<^item> \<^verbatim>\<open>Containers\<close>, \<^verbatim>\<open>Crun\<close> (\<^verbatim>\<open>pkg/containers\<close>): the reconciler on any runtime that keeps its contract converges to
      the last valid set and leaves unchanged containers alone; the production runtime renders bundles
      and drives \<open>crun\<close>, and does not keep the contract, because \<open>Stop\<close> never fails.
    \<^item> \<^verbatim>\<open>Sshkeys\<close>, \<^verbatim>\<open>Sshd\<close>, \<^verbatim>\<open>Shell_Pump\<close> (\<^verbatim>\<open>pkg/sshkeys\<close>, \<^verbatim>\<open>pkg/sshd\<close>): the \<^verbatim>\<open>authorized_keys\<close> file is replaced atomically; the server
      authorises exactly the published keys; sessions, request payloads and the host key; the
      goroutines between a channel and a terminal are a step relation, with what a client that is
      silent or closes its input gets to see.
    \<^item> \<^verbatim>\<open>Execsession\<close> (\<^verbatim>\<open>pkg/execsession\<close>): requests, the registry of sessions and the pumps of a terminal, the
      last two as step relations with invariants over every interleaving.
    \<^item> \<^verbatim>\<open>Properties\<close>, \<^verbatim>\<open>Boot\<close> (\<^verbatim>\<open>pkg/properties\<close>, \<^verbatim>\<open>pkg/boot\<close>): the tree of properties mirrors the published set, is
      never torn and never written outside its root; provisioning runs once.
    \<^item> \<^verbatim>\<open>Network\<close> (\<^verbatim>\<open>pkg/mesh\<close>, \<^verbatim>\<open>firewall\<close>, \<^verbatim>\<open>firewallstatus\<close>): only validated updates reach the kernel; the emitter counts
      every emission.
    \<^item> \<^verbatim>\<open>Shares\<close> (\<^verbatim>\<open>pkg/mounts\<close> and the vendored \<open>cubefs\<close>): the registry of mounts refines the map from ids to mount
      points; what a reboot, a failed unmount and a space in a mount point do to it.
    \<^item> \<^verbatim>\<open>Subscribers\<close>: the \<open>Start\<close> functions and callbacks of the packages above; which subscription each makes, and
      that the counts they log are those of what was applied.
    \<^item> \<^verbatim>\<open>Guestplane\<close> (\<^verbatim>\<open>pkg/guestplane\<close>): the control stream; its two goroutines are a step relation.
    \<^item> \<^verbatim>\<open>Procps\<close> (\<^verbatim>\<open>pkg/procps\<close>, \<^verbatim>\<open>pkg/introspectsrv\<close>): the process table.
    \<^item> \<^verbatim>\<open>Control\<close>, \<^verbatim>\<open>Agent\<close> (\<^verbatim>\<open>main.go\<close>): the composition.  Control requests become messages for the reconciler; a
      published key set reaches both the file and the server; \<open>run\<close> is the list of its setup steps in
      order, each of which may fail, and the shutdown releases what they acquired.

  \<^bold>\<open>State and effects.\<close>  Operations pass the state they change explicitly; an error is a value of a
  sum or of \<open>err\<close> (\<^const>\<open>None\<close> is nil), with a datatype per package that names its error returns; a panic is a
  value of its own.  A loop over a Go map takes the order of the keys as an argument, and the
  properties hold for every order.  A mutex makes an operation one function.

  \<^bold>\<open>Bounds and fuel.\<close>  The JSON parser has fuel: \<open>2 * n + 2\<close> calls for a text of length \<open>n\<close>, since a byte is
  consumed between two nested calls; \<^verbatim>\<open>Json_Fuel\<close> proves that more fuel never changes the result.  The walk over the tree of properties has as fuel one more
  than the length of the longest path there is, and it is shown there that this is enough.  Every other loop is structural or has
  a termination proof; loops that wait for the environment (the boot watcher, the reconnecting stream,
  the wait for a mount) recurse over what the environment does, or over the time to a deadline.

  \<^bold>\<open>Parameters.\<close>  Third-party code is an argument: the ssh, git and OCI libraries, the shell interpreter, the
  netlink appliers, the programs that are run, gRPC and vsock, the broker.  What a property needs of
  them is a named hypothesis (\<open>ssh_laws\<close>, \<open>last_per_subject\<close>, \<open>starts_nothing\<close>, \<open>runtime_contract\<close>), with a witness
  that instantiates it.

  \<^bold>\<open>Not modelled.\<close>  Log output and the fan-out of log records to the bus; the parsing of the command line
  (the options and their defaults are); the HTTP handler of the metrics; symbolic links and
  permission checks of the file system; the text of wrapped errors; the placeholders for other
  platforms; the netlink functions behind \<open>meshApply\<close> and \<open>firewallApply\<close>, which are vendored.  \<open>float64\<close> is exact
  rounding where a property depends on it (\<^verbatim>\<open>Metrics\<close>) and a parameter where none does (\<^verbatim>\<open>Procps\<close>).
\<close>

end
